theory Spec2Isabelle
  imports Main
begin

section \<open>Python values\<close>

text \<open>
  The handlers of \<^verbatim>\<open>app.py\<close> work on three kinds of input: text (the request path, the
  \<^verbatim>\<open>Authorization\<close> header), the value that \<^verbatim>\<open>json.loads\<close> returns for the body, and
  the collections read from the data files. Text is a \<open>string\<close>: the path and the header
  are decoded as ISO-8859-1 by \<^verbatim>\<open>http.server\<close>, one \<open>char\<close> per code point. Strings
  inside a body are modelled with the same type, so only code points below 256 occur.
\<close>

datatype exn = ValueError | TypeError | OverflowError | AttributeError | KeyError
  | ZeroDivisionError

text \<open>
  A Python float is \<open>Finite m e\<close>, standing for \<open>m * 2 ^ e\<close>, an infinity or a NaN.
  Every binary64 number has this form (with \<open>\<bar>m\<bar> < 2 ^ 53\<close>); the sign of a zero is not
  kept, since nothing below reads it.
\<close>

datatype pyfloat = Finite int int | PosInf | NegInf | NaN

datatype json = JNull | JBool bool | JInt int | JFloat pyfloat | JStr string
  | JList "json list" | JObj "(string \<times> json) list"

text \<open>Truth value testing, as \<^verbatim>\<open>not x\<close>, \<^verbatim>\<open>x or y\<close> and \<^verbatim>\<open>if x:\<close> apply it.\<close>

fun truthy :: "json \<Rightarrow> bool" where
  "truthy JNull = False"
| "truthy (JBool b) = b"
| "truthy (JInt n) = (n \<noteq> 0)"
| "truthy (JFloat (Finite m e)) = (m \<noteq> 0)"
| "truthy (JFloat PosInf) = True"
| "truthy (JFloat NegInf) = True"
| "truthy (JFloat NaN) = True"
| "truthy (JStr s) = (s \<noteq> [])"
| "truthy (JList xs) = (xs \<noteq> [])"
| "truthy (JObj kvs) = (kvs \<noteq> [])"

definition py_or :: "json \<Rightarrow> json \<Rightarrow> json" where
  "py_or a b = (if truthy a then a else b)"

text \<open>
  \<^verbatim>\<open>self._parse_json_body() or {}\<close>: the parsed body, or the empty dict when there is
  none or it is falsy. Whatever truthy value the body holds is passed on, dict or not.
\<close>

definition or_empty :: "json option \<Rightarrow> json" where
  "or_empty b = (case b of None \<Rightarrow> JObj [] | Some v \<Rightarrow> py_or v (JObj []))"

text \<open>
  \<^verbatim>\<open>body.get(key)\<close>: only a dict has the method; a missing key gives \<^verbatim>\<open>None\<close>.
\<close>

fun dict_get :: "json \<Rightarrow> string \<Rightarrow> exn + json" where
  "dict_get (JObj kvs) k = Inr (case map_of kvs k of None \<Rightarrow> JNull | Some v \<Rightarrow> v)"
| "dict_get _ k = Inl AttributeError"

definition startswith :: "string \<Rightarrow> string \<Rightarrow> bool" where
  "startswith s p = (take (length p) s = p)"

definition endswith :: "string \<Rightarrow> string \<Rightarrow> bool" where
  "endswith s p = (drop (length s - length p) s = p \<and> length p \<le> length s)"

fun contains :: "string \<Rightarrow> string \<Rightarrow> bool" where
  "contains [] k = (k = [])"
| "contains (c # cs) k = (startswith (c # cs) k \<or> contains cs k)"

text \<open>
  \<^verbatim>\<open>key in body\<close>: key membership for a dict, substring test for a string, element
  test for a list, and a TypeError for every other value.
\<close>

fun py_in :: "string \<Rightarrow> json \<Rightarrow> exn + bool" where
  "py_in k (JObj kvs) = Inr (map_of kvs k \<noteq> None)"
| "py_in k (JStr s) = Inr (contains s k)"
| "py_in k (JList xs) = Inr (JStr k \<in> set xs)"
| "py_in k _ = Inl TypeError"

text \<open>\<^verbatim>\<open>body[key]\<close> with a string key.\<close>

fun getitem :: "json \<Rightarrow> string \<Rightarrow> exn + json" where
  "getitem (JObj kvs) k = (case map_of kvs k of None \<Rightarrow> Inl KeyError | Some v \<Rightarrow> Inr v)"
| "getitem _ k = Inl TypeError"

subsection \<open>Text\<close>

text \<open>
  \<^verbatim>\<open>str.upper\<close> on the code points below 256: the letters \<^verbatim>\<open>a\<close> to \<^verbatim>\<open>z\<close> and the
  accented letters from 224 to 254 (but not the division sign, 247) move down by 32, and
  the sharp s (223) becomes \<^verbatim>\<open>SS\<close>. The micro sign (181) and the y with diaeresis (255)
  have their capitals beyond 255, where a \<open>char\<close> cannot follow; they are kept, which
  like their capitals are no ASCII letters.
\<close>

definition lower_letters :: string where
  "lower_letters = ''abcdefghijklmnopqrstuvwxyz'' @ [
     CHR 0xE0, CHR 0xE1, CHR 0xE2, CHR 0xE3, CHR 0xE4, CHR 0xE5, CHR 0xE6, CHR 0xE7,
     CHR 0xE8, CHR 0xE9, CHR 0xEA, CHR 0xEB, CHR 0xEC, CHR 0xED, CHR 0xEE, CHR 0xEF,
     CHR 0xF0, CHR 0xF1, CHR 0xF2, CHR 0xF3, CHR 0xF4, CHR 0xF5, CHR 0xF6, CHR 0xF8,
     CHR 0xF9, CHR 0xFA, CHR 0xFB, CHR 0xFC, CHR 0xFD, CHR 0xFE]"

definition upper_letters :: string where
  "upper_letters = ''ABCDEFGHIJKLMNOPQRSTUVWXYZ'' @ [
     CHR 0xC0, CHR 0xC1, CHR 0xC2, CHR 0xC3, CHR 0xC4, CHR 0xC5, CHR 0xC6, CHR 0xC7,
     CHR 0xC8, CHR 0xC9, CHR 0xCA, CHR 0xCB, CHR 0xCC, CHR 0xCD, CHR 0xCE, CHR 0xCF,
     CHR 0xD0, CHR 0xD1, CHR 0xD2, CHR 0xD3, CHR 0xD4, CHR 0xD5, CHR 0xD6, CHR 0xD8,
     CHR 0xD9, CHR 0xDA, CHR 0xDB, CHR 0xDC, CHR 0xDD, CHR 0xDE]"

definition upper_char :: "char \<Rightarrow> string" where
  "upper_char c =
     (if c = CHR 0xDF then ''SS''
      else (case map_of (zip lower_letters upper_letters) c of
              None \<Rightarrow> [c] | Some d \<Rightarrow> [d]))"

definition upper :: "string \<Rightarrow> string" where
  "upper s = concat (map upper_char s)"

text \<open>The characters below 256 that \<^verbatim>\<open>str.strip\<close> removes.\<close>

definition strip_space :: "char list" where
  "strip_space = [CHR 0x09, CHR 0x0A, CHR 0x0B, CHR 0x0C, CHR 0x0D, CHR 0x1C, CHR 0x1D,
     CHR 0x1E, CHR 0x1F, CHR 0x20, CHR 0x85, CHR 0xA0]"

text \<open>The characters below 256 that \<^verbatim>\<open>int\<close> skips around a literal.\<close>

definition int_space :: "char list" where
  "int_space = [CHR 0x09, CHR 0x0A, CHR 0x0B, CHR 0x0C, CHR 0x0D, CHR 0x20, CHR 0x85,
     CHR 0xA0]"

definition strip_chars :: "char list \<Rightarrow> string \<Rightarrow> string" where
  "strip_chars ws s =
     rev (dropWhile (\<lambda>c. c \<in> set ws) (rev (dropWhile (\<lambda>c. c \<in> set ws) s)))"

definition strip :: "string \<Rightarrow> string" where
  "strip s = strip_chars strip_space s"

definition digit_val :: "char \<Rightarrow> nat option" where
  "digit_val c = map_of (zip ''0123456789'' [0, 1, 2, 3, 4, 5, 6, 7, 8, 9]) c"

definition digit_char :: "nat \<Rightarrow> char" where
  "digit_char d = ''0123456789'' ! d"

text \<open>
  The digits of a literal, read left to right. An underscore is accepted between two
  digits only.
\<close>

fun scan_digits :: "nat \<Rightarrow> string \<Rightarrow> nat option" where
  "scan_digits acc [] = Some acc"
| "scan_digits acc [c] = (case digit_val c of None \<Rightarrow> None | Some v \<Rightarrow> Some (10 * acc + v))"
| "scan_digits acc (c # d # ds) =
     (if c = CHR ''_'' then
        (case digit_val d of None \<Rightarrow> None | Some v \<Rightarrow> scan_digits (10 * acc + v) ds)
      else
        (case digit_val c of None \<Rightarrow> None | Some v \<Rightarrow> scan_digits (10 * acc + v) (d # ds)))"

definition max_str_digits :: nat where
  "max_str_digits = 4300"

text \<open>
  \<^verbatim>\<open>int(s)\<close> for a string: surrounding whitespace, an optional sign, then digits that
  start with a digit. More than 4300 digits are refused (the interpreter's default limit
  for converting text to an integer). Every failure is a ValueError.
\<close>

definition int_of_str :: "string \<Rightarrow> exn + int" where
  "int_of_str s =
     (let t = strip_chars int_space s;
          neg = (t \<noteq> [] \<and> hd t = CHR ''-'');
          ds = (if t \<noteq> [] \<and> (hd t = CHR ''-'' \<or> hd t = CHR ''+'') then tl t else t)
      in case ds of
           [] \<Rightarrow> Inl ValueError
         | c # _ \<Rightarrow>
             if digit_val c = None then Inl ValueError
             else (case scan_digits 0 ds of
                     None \<Rightarrow> Inl ValueError
                   | Some n \<Rightarrow>
                       if length (filter (\<lambda>c. c \<noteq> CHR ''_'') ds) > max_str_digits
                       then Inl ValueError
                       else Inr (if neg then - int n else int n)))"

text \<open>\<^verbatim>\<open>int(x)\<close> for a float: truncation towards zero.\<close>

fun int_of_float :: "pyfloat \<Rightarrow> exn + int" where
  "int_of_float (Finite m e) =
     Inr (if 0 \<le> e then m * 2 ^ nat e
          else if 0 \<le> m then m div 2 ^ nat (- e) else - ((- m) div 2 ^ nat (- e)))"
| "int_of_float PosInf = Inl OverflowError"
| "int_of_float NegInf = Inl OverflowError"
| "int_of_float NaN = Inl ValueError"

text \<open>\<^verbatim>\<open>int(x)\<close> for a value of a JSON body.\<close>

fun py_int :: "json \<Rightarrow> exn + int" where
  "py_int JNull = Inl TypeError"
| "py_int (JBool b) = Inr (if b then 1 else 0)"
| "py_int (JInt n) = Inr n"
| "py_int (JFloat f) = int_of_float f"
| "py_int (JStr s) = int_of_str s"
| "py_int (JList xs) = Inl TypeError"
| "py_int (JObj kvs) = Inl TypeError"

text \<open>\<^verbatim>\<open>str(n)\<close> for an integer, as the f-string of the path parser renders it.\<close>

fun str_nat :: "nat \<Rightarrow> string" where
  "str_nat n = (if n < 10 then [digit_char n] else str_nat (n div 10) @ [digit_char (n mod 10)])"

definition str_int :: "int \<Rightarrow> string" where
  "str_int i = (if i < 0 then CHR ''-'' # str_nat (nat (- i)) else str_nat (nat i))"

declare str_nat.simps [simp del]

subsection \<open>True division and ceiling\<close>

fun bit_length :: "nat \<Rightarrow> nat" where
  "bit_length n = (if n = 0 then 0 else Suc (bit_length (n div 2)))"

declare bit_length.simps [simp del]

text \<open>The integer nearest to \<open>num / den\<close>, the even one of two that are equally near.\<close>

definition round_half_even :: "int \<Rightarrow> int \<Rightarrow> int" where
  "round_half_even num den =
     (let q = num div den;
          r = num mod den
      in if 2 * r < den then q else if den < 2 * r then q + 1
         else if even q then q else q + 1)"

text \<open>
  The quotient \<open>x / y\<close> of two positive integers, rounded to the nearest binary64 number
  (ties to even), as \<open>(m, e)\<close> with value \<open>m * 2 ^ e\<close>. \<open>lg\<close> is the exponent of the power
  of two at or below the quotient; the last place of the result has exponent \<open>lg - 52\<close>,
  and never less than \<open>- 1074\<close>, where the subnormal numbers end.
\<close>

definition round_quotient :: "int \<Rightarrow> int \<Rightarrow> int \<times> int" where
  "round_quotient x y =
     (let d = int (bit_length (nat x)) - int (bit_length (nat y));
          lg = (if y * 2 ^ nat d \<le> x * 2 ^ nat (- d) then d else d - 1);
          e = max lg (- 1022) - 52
      in (round_half_even (x * 2 ^ nat (- e)) (y * 2 ^ nat e), e))"

text \<open>
  \<^verbatim>\<open>a / b\<close> on integers: the correctly rounded quotient, OverflowError when it is too
  large for a float.
\<close>

definition truediv :: "int \<Rightarrow> int \<Rightarrow> exn + pyfloat" where
  "truediv a b =
     (if b = 0 then Inl ZeroDivisionError
      else if a = 0 then Inr (Finite 0 0)
      else (case round_quotient \<bar>a\<bar> \<bar>b\<bar> of (m, e) \<Rightarrow>
              if 0 \<le> e \<and> 2 ^ 1024 \<le> m * 2 ^ nat e then Inl OverflowError
              else Inr (Finite (if (a < 0) = (b < 0) then m else - m) e)))"

fun math_ceil :: "pyfloat \<Rightarrow> exn + int" where
  "math_ceil (Finite m e) = Inr (if 0 \<le> e then m * 2 ^ nat e else - ((- m) div 2 ^ nat (- e)))"
| "math_ceil PosInf = Inl OverflowError"
| "math_ceil NegInf = Inl OverflowError"
| "math_ceil NaN = Inl ValueError"

section \<open>Query utilities (utils.py)\<close>

text \<open>\<^verbatim>\<open>items[start:end]\<close>: an index below zero counts from the end, and both are clipped.\<close>

definition py_slice :: "'a list \<Rightarrow> int \<Rightarrow> int \<Rightarrow> 'a list" where
  "py_slice xs i j =
     (let n = int (length xs);
          lo = (if i < 0 then max (i + n) 0 else min i n);
          hi = (if j < 0 then max (j + n) 0 else min j n)
      in take (nat (hi - lo)) (drop (nat lo) xs))"

record pagination =
  pg_count :: int
  pg_page :: int
  pg_page_size :: int
  pg_total_pages :: int

definition paginate :: "'a list \<Rightarrow> int \<Rightarrow> int \<Rightarrow> exn + ('a list \<times> pagination)" where
  "paginate items page0 page_size0 =
     (let total = int (length items);
          page = max page0 1;
          page_size = max page_size0 1;
          start = (page - 1) * page_size;
          end = start + page_size;
          paged = py_slice items start end
      in case (if 0 < page_size
               then (case truediv total page_size of Inl e \<Rightarrow> Inl e | Inr f \<Rightarrow> math_ceil f)
               else Inr 1) of
           Inl e \<Rightarrow> Inl e
         | Inr pages \<Rightarrow>
             Inr (paged, \<lparr>pg_count = total, pg_page = page, pg_page_size = page_size,
                          pg_total_pages = pages\<rparr>))"

section \<open>The resource path parser (app.py)\<close>

text \<open>\<^verbatim>\<open>remainder.split('/')\<close>; the result is never empty.\<close>

fun split_slash :: "string \<Rightarrow> string list" where
  "split_slash [] = [[]]"
| "split_slash (c # cs) =
     (if c = CHR ''/'' then [] # split_slash cs
      else (case split_slash cs of [] \<Rightarrow> [[c]] | p # ps \<Rightarrow> (c # p) # ps))"

definition parse_resource_path :: "string \<Rightarrow> string \<Rightarrow> string \<times> int option" where
  "parse_resource_path path prefix0 =
     (let prefix = (if \<not> endswith prefix0 ''/'' then prefix0 @ ''/'' else prefix0)
      in if \<not> startswith path prefix then (path, None)
         else
           (let remainder = drop (length prefix) path
            in if remainder = [] \<or> remainder = ''/'' then (prefix, None)
               else (case split_slash remainder of
                       [] \<Rightarrow> (path, None)
                     | part0 # _ \<Rightarrow>
                         (case int_of_str part0 of
                            Inr res_id \<Rightarrow> (prefix @ str_int res_id @ ''/'', Some res_id)
                          | Inl _ \<Rightarrow> (path, None)))))"

section \<open>Data model (models.py) and storage (storage.py)\<close>

text \<open>
  A timestamp field holds the \<^verbatim>\<open>isoformat\<close> text of a naive datetime. It is modelled by
  the instant it denotes, counted in microseconds; \<^verbatim>\<open>timedelta(days=n)\<close> is then a number
  of microseconds. The fields of the four dataclasses keep their names, prefixed with
  the class. An author's name is whatever truthy JSON value a request put there.
\<close>

type_synonym datetime = int

definition timedelta_days :: "int \<Rightarrow> int" where
  "timedelta_days n = n * 86400000000"

record User =
  User_id :: int
  User_username :: string
  User_email :: string
  User_password_hash :: string
  User_role :: string

record Author =
  Author_id :: int
  Author_name :: json

record Book =
  Book_id :: int
  Book_title :: string
  Book_publication_year :: int
  Book_isbn :: string
  Book_author_id :: int
  Book_total_copies :: int
  Book_available_copies :: int

record Loan =
  Loan_id :: int
  Loan_user_id :: int
  Loan_book_id :: int
  Loan_borrowed_at :: datetime
  Loan_due_at :: datetime
  Loan_returned_at :: "datetime option"

definition status :: "Loan \<Rightarrow> string" where
  "status l = (if Loan_returned_at l \<noteq> None then ''RETURNED'' else ''BORROWED'')"

text \<open>
  The data files: one list per collection and the token map. A handler loads the
  collections it needs, and whatever it saves replaces the file. Next to the files after
  the request, a handler's outcome records which collections were saved, in order.
\<close>

record store =
  users :: "User list"
  authors :: "Author list"
  books :: "Book list"
  loans :: "Loan list"
  tokens :: "string \<rightharpoonup> int"

datatype collection = Users | Authors | Books | Loans | Tokens

section \<open>Authentication (auth.py)\<close>

definition get_user_by_token :: "string \<Rightarrow> store \<Rightarrow> User option" where
  "get_user_by_token token st =
     (case tokens st token of
        None \<Rightarrow> None
      | Some user_id \<Rightarrow> find (\<lambda>u. User_id u = user_id) (users st))"

definition require_role :: "User option \<Rightarrow> string list \<Rightarrow> bool" where
  "require_role user roles =
     (case user of None \<Rightarrow> False | Some u \<Rightarrow> upper (User_role u) \<in> set (map upper roles))"

section \<open>Requests and responses (app.py)\<close>

text \<open>
  A request is the path that \<^verbatim>\<open>urlparse\<close> returns, the value of the
  \<^verbatim>\<open>Authorization\<close> header (empty when there is none) and what \<^verbatim>\<open>_parse_json_body\<close>
  returns: the parsed body, or nothing for an empty or malformed one. A response is a
  status with its JSON payload, or no response at all when an exception that no handler
  catches ends the request.
\<close>

record request =
  req_path :: string
  req_authorization :: string
  req_body :: "json option"

datatype payload = Detail string string | AuthorData Author | BookData Book | LoanData Loan

datatype response = Sent nat payload | Crashed exn

type_synonym outcome = "response \<times> store \<times> collection list"

definition reply :: "nat \<Rightarrow> payload \<Rightarrow> store \<Rightarrow> outcome" where
  "reply code p st = (Sent code p, st, [])"

definition crash :: "exn \<Rightarrow> store \<Rightarrow> outcome" where
  "crash e st = (Crashed e, st, [])"

definition get_auth_user :: "request \<Rightarrow> store \<Rightarrow> User option" where
  "get_auth_user req st =
     (let auth_header = req_authorization req
      in if startswith auth_header ''Token ''
         then get_user_by_token (strip (drop 6 auth_header)) st
         else None)"

text \<open>
  \<^verbatim>\<open>next((x for x in xs if p(x)), None)\<close> is \<^const>\<open>find\<close>; where the object found is
  modified afterwards, its position is kept instead.
\<close>

fun find_index :: "('a \<Rightarrow> bool) \<Rightarrow> 'a list \<Rightarrow> nat option" where
  "find_index P [] = None"
| "find_index P (x # xs) = (if P x then Some 0 else map_option Suc (find_index P xs))"

text \<open>\<^verbatim>\<open>max(ids, default=0)\<close>.\<close>

definition max_default :: "int list \<Rightarrow> int \<Rightarrow> int" where
  "max_default xs d = (case xs of [] \<Rightarrow> d | x # ys \<Rightarrow> fold max ys x)"

definition staff :: "string list" where
  "staff = [''LIBRARIAN'', ''ADMIN'']"

definition anyone :: "string list" where
  "anyone = [''MEMBER'', ''LIBRARIAN'', ''ADMIN'']"

subsection \<open>POST /api/loans/borrow/\<close>

text \<open>\<^verbatim>\<open>body.get("book_id") or body.get("book")\<close>.\<close>

definition book_field :: "json \<Rightarrow> exn + json" where
  "book_field body =
     (case dict_get body ''book_id'' of
        Inl e \<Rightarrow> Inl e
      | Inr v \<Rightarrow> if truthy v then Inr v else dict_get body ''book'')"

definition borrow :: "request \<Rightarrow> datetime \<Rightarrow> store \<Rightarrow> outcome" where
  "borrow req now st =
     (let user = get_auth_user req st
      in if \<not> require_role user anyone
         then reply 401 (Detail ''Authentication required'' ''not_authenticated'') st
         else
           (case user of
              None \<Rightarrow> crash AttributeError st
            | Some u \<Rightarrow>
           (case book_field (or_empty (req_body req)) of
              Inl e \<Rightarrow> crash e st
            | Inr book_id \<Rightarrow>
           if \<not> truthy book_id then reply 400 (Detail ''Missing book_id'' ''invalid'') st
           else
             (case py_int book_id of
                Inl ValueError \<Rightarrow> reply 400 (Detail ''Invalid book_id'' ''invalid'') st
              | Inl e \<Rightarrow> crash e st
              | Inr bid \<Rightarrow>
             (case find_index (\<lambda>b. Book_id b = bid) (books st) of
                None \<Rightarrow> reply 404 (Detail ''Book not found'' ''not_found'') st
              | Some i \<Rightarrow>
             (let book = books st ! i
              in if Book_available_copies book < 1
                 then reply 409 (Detail ''No copies available'' ''no_copies'') st
                 else
                   (case find (\<lambda>l. Loan_user_id l = User_id u \<and> Loan_book_id l = bid
                                    \<and> Loan_returned_at l = None) (loans st) of
                      Some active_loan \<Rightarrow>
                        reply 409 (Detail ''Book already borrowed by user'' ''duplicate_loan'') st
                    | None \<Rightarrow>
                        (let next_id = max_default (map Loan_id (loans st)) 0 + 1;
                             due = now + timedelta_days 14;
                             new_loan = \<lparr>Loan_id = next_id, Loan_user_id = User_id u,
                                         Loan_book_id = bid, Loan_borrowed_at = now,
                                         Loan_due_at = due, Loan_returned_at = None\<rparr>;
                             loans' = loans st @ [new_loan];
                             books' = (books st)[i := book\<lparr>Book_available_copies :=
                                         Book_available_copies book - 1\<rparr>]
                         in (Sent 201 (LoanData new_loan),
                             st\<lparr>books := books', loans := loans'\<rparr>,
                             [Books, Loans])))))))))"

subsection \<open>POST /api/loans/return/\<close>

text \<open>
  The loan a return request aims at: the one with the id given as \<^verbatim>\<open>loan_id\<close>, or else
  the requesting user's open loan on the book given as \<^verbatim>\<open>book_id\<close> or \<^verbatim>\<open>book\<close>. A
  ValueError of \<^verbatim>\<open>int\<close> is swallowed and leaves no target; any other exception ends
  the request. The result is the position of the loan in the list.
\<close>

definition find_target :: "json \<Rightarrow> User \<Rightarrow> Loan list \<Rightarrow> exn + nat option" where
  "find_target body u ls =
     (case dict_get body ''loan_id'' of
        Inl e \<Rightarrow> Inl e
      | Inr loan_id \<Rightarrow>
     (case book_field body of
        Inl e \<Rightarrow> Inl e
      | Inr book_id \<Rightarrow>
          if loan_id \<noteq> JNull then
            (case py_int loan_id of
               Inr lid \<Rightarrow> Inr (find_index (\<lambda>l. Loan_id l = lid) ls)
             | Inl ValueError \<Rightarrow> Inr None
             | Inl e \<Rightarrow> Inl e)
          else if book_id \<noteq> JNull then
            (case py_int book_id of
               Inr bid \<Rightarrow>
                 Inr (find_index (\<lambda>l. Loan_book_id l = bid \<and> Loan_user_id l = User_id u
                                      \<and> Loan_returned_at l = None) ls)
             | Inl ValueError \<Rightarrow> Inr None
             | Inl e \<Rightarrow> Inl e)
          else Inr None))"

definition return_loan :: "request \<Rightarrow> datetime \<Rightarrow> store \<Rightarrow> outcome" where
  "return_loan req now st =
     (let user = get_auth_user req st
      in if \<not> require_role user anyone
         then reply 401 (Detail ''Authentication required'' ''not_authenticated'') st
         else
           (case user of
              None \<Rightarrow> crash AttributeError st
            | Some u \<Rightarrow>
           (case find_target (or_empty (req_body req)) u (loans st) of
              Inl e \<Rightarrow> crash e st
            | Inr None \<Rightarrow> reply 404 (Detail ''Loan not found'' ''not_found'') st
            | Inr (Some t) \<Rightarrow>
           (let target_loan = loans st ! t
            in if Loan_user_id target_loan \<noteq> User_id u \<and> \<not> require_role user staff
               then reply 403 (Detail ''Forbidden'' ''permission_denied'') st
               else if Loan_returned_at target_loan \<noteq> None
               then reply 409 (Detail ''Loan already returned'' ''already_returned'') st
               else
                 (let returned = target_loan\<lparr>Loan_returned_at := Some now\<rparr>;
                      loans' = (loans st)[t := returned]
                  in case find_index (\<lambda>b. Book_id b = Loan_book_id returned) (books st) of
                       Some i \<Rightarrow>
                         (let book = books st ! i;
                              books' = (books st)[i := book\<lparr>Book_available_copies :=
                                          Book_available_copies book + 1\<rparr>]
                          in (Sent 200 (LoanData returned),
                              st\<lparr>books := books', loans := loans'\<rparr>,
                              [Books, Loans]))
                     | None \<Rightarrow>
                         (Sent 200 (LoanData returned), st\<lparr>loans := loans'\<rparr>,
                          [Loans]))))))"

subsection \<open>POST /api/authors/\<close>

definition create_author :: "request \<Rightarrow> store \<Rightarrow> outcome" where
  "create_author req st =
     (let user = get_auth_user req st
      in if \<not> require_role user staff
         then reply 401 (Detail ''Authentication required'' ''not_authenticated'') st
         else
           (let body = or_empty (req_body req)
            in case dict_get body ''name'' of
                 Inl e \<Rightarrow> crash e st
               | Inr name \<Rightarrow>
                   if \<not> truthy name then reply 400 (Detail ''Missing name'' ''invalid'') st
                   else
                     (let next_id = max_default (map Author_id (authors st)) 0 + 1;
                          new_author = \<lparr>Author_id = next_id, Author_name = name\<rparr>
                      in (Sent 201 (AuthorData new_author),
                          st\<lparr>authors := authors st @ [new_author]\<rparr>,
                          [Authors]))))"

subsection \<open>PUT and PATCH\<close>

definition put_author :: "request \<Rightarrow> int \<Rightarrow> store \<Rightarrow> outcome" where
  "put_author req res_id st =
     (let user = get_auth_user req st
      in if \<not> require_role user staff
         then reply 403 (Detail ''Forbidden'' ''permission_denied'') st
         else
           (let body = or_empty (req_body req)
            in case find_index (\<lambda>a. Author_id a = res_id) (authors st) of
                 None \<Rightarrow> reply 404 (Detail ''Author not found'' ''not_found'') st
               | Some i \<Rightarrow>
                   (let author = authors st ! i
                    in case dict_get body ''name'' of
                         Inl e \<Rightarrow> crash e st
                       | Inr name \<Rightarrow>
                           if truthy name then
                             (let author' = author\<lparr>Author_name := name\<rparr>
                              in (Sent 200 (AuthorData author'),
                                  st\<lparr>authors := (authors st)[i := author']\<rparr>,
                                  [Authors]))
                           else (Sent 200 (AuthorData author), st, []))))"

text \<open>
  The book update goes through the fields one \<^verbatim>\<open>if key in body:\<close> at a time. Each step
  below is one of them: it returns the book as that statement leaves it, or the
  exception that leaves the handler. \<open>catching\<close> is
  \<^verbatim>\<open>except (TypeError, ValueError): pass\<close> around an assignment that has not happened
  yet when the exception is raised. \<^verbatim>\<open>str\<close> of a body value is a parameter.
\<close>

definition catching :: "exn + Book \<Rightarrow> Book \<Rightarrow> exn + Book" where
  "catching r book =
     (case r of
        Inl TypeError \<Rightarrow> Inr book
      | Inl ValueError \<Rightarrow> Inr book
      | Inl e \<Rightarrow> Inl e
      | Inr book' \<Rightarrow> Inr book')"

definition int_item :: "json \<Rightarrow> string \<Rightarrow> exn + int" where
  "int_item body k = (case getitem body k of Inl e \<Rightarrow> Inl e | Inr v \<Rightarrow> py_int v)"

definition put_title :: "(json \<Rightarrow> string) \<Rightarrow> json \<Rightarrow> Book \<Rightarrow> exn + Book" where
  "put_title str_of body book =
     (case py_in ''title'' body of
        Inl e \<Rightarrow> Inl e
      | Inr False \<Rightarrow> Inr book
      | Inr True \<Rightarrow>
          (case getitem body ''title'' of
             Inl e \<Rightarrow> Inl e
           | Inr v \<Rightarrow> Inr (book\<lparr>Book_title := str_of v\<rparr>)))"

definition put_publication_year :: "json \<Rightarrow> Book \<Rightarrow> exn + Book" where
  "put_publication_year body book =
     (case py_in ''publication_year'' body of
        Inl e \<Rightarrow> Inl e
      | Inr False \<Rightarrow> Inr book
      | Inr True \<Rightarrow>
          catching
            (case int_item body ''publication_year'' of
               Inl e \<Rightarrow> Inl e
             | Inr n \<Rightarrow> Inr (book\<lparr>Book_publication_year := n\<rparr>))
            book)"

definition put_isbn :: "(json \<Rightarrow> string) \<Rightarrow> json \<Rightarrow> Book \<Rightarrow> exn + Book" where
  "put_isbn str_of body book =
     (case py_in ''isbn'' body of
        Inl e \<Rightarrow> Inl e
      | Inr False \<Rightarrow> Inr book
      | Inr True \<Rightarrow>
          (case getitem body ''isbn'' of
             Inl e \<Rightarrow> Inl e
           | Inr v \<Rightarrow> Inr (book\<lparr>Book_isbn := str_of v\<rparr>)))"

definition put_book_author :: "json \<Rightarrow> store \<Rightarrow> Book \<Rightarrow> exn + Book" where
  "put_book_author body st book =
     (case py_in ''author'' body of
        Inl e \<Rightarrow> Inl e
      | Inr False \<Rightarrow> Inr book
      | Inr True \<Rightarrow>
          catching
            (case int_item body ''author'' of
               Inl e \<Rightarrow> Inl e
             | Inr author_id \<Rightarrow>
                 Inr (if list_ex (\<lambda>a. Author_id a = author_id) (authors st)
                      then book\<lparr>Book_author_id := author_id\<rparr> else book))
            book)"

definition put_total_copies :: "json \<Rightarrow> Book \<Rightarrow> exn + Book" where
  "put_total_copies body book =
     (case py_in ''total_copies'' body of
        Inl e \<Rightarrow> Inl e
      | Inr False \<Rightarrow> Inr book
      | Inr True \<Rightarrow>
          catching
            (case int_item body ''total_copies'' of
               Inl e \<Rightarrow> Inl e
             | Inr new_total \<Rightarrow>
                 (let diff = new_total - Book_total_copies book
                  in Inr (book\<lparr>Book_total_copies := new_total,
                               Book_available_copies :=
                                 max (Book_available_copies book + diff) 0\<rparr>)))
            book)"

definition put_available_copies :: "json \<Rightarrow> Book \<Rightarrow> exn + Book" where
  "put_available_copies body book =
     (case py_in ''available_copies'' body of
        Inl e \<Rightarrow> Inl e
      | Inr False \<Rightarrow> Inr book
      | Inr True \<Rightarrow>
          catching
            (case int_item body ''available_copies'' of
               Inl e \<Rightarrow> Inl e
             | Inr n \<Rightarrow> Inr (book\<lparr>Book_available_copies := n\<rparr>))
            book)"

definition and_then :: "exn + Book \<Rightarrow> (Book \<Rightarrow> exn + Book) \<Rightarrow> exn + Book" where
  "and_then r f = (case r of Inl e \<Rightarrow> Inl e | Inr book \<Rightarrow> f book)"

definition put_fields :: "(json \<Rightarrow> string) \<Rightarrow> json \<Rightarrow> store \<Rightarrow> Book \<Rightarrow> exn + Book" where
  "put_fields str_of body st book =
     and_then (and_then (and_then (and_then (and_then
       (put_title str_of body book)
       (put_publication_year body))
       (put_isbn str_of body))
       (put_book_author body st))
       (put_total_copies body))
       (put_available_copies body)"

definition put_book :: "(json \<Rightarrow> string) \<Rightarrow> request \<Rightarrow> int \<Rightarrow> store \<Rightarrow> outcome" where
  "put_book str_of req res_id st =
     (let user = get_auth_user req st
      in if \<not> require_role user staff
         then reply 403 (Detail ''Forbidden'' ''permission_denied'') st
         else
           (let body = or_empty (req_body req)
            in case find_index (\<lambda>b. Book_id b = res_id) (books st) of
                 None \<Rightarrow> reply 404 (Detail ''Book not found'' ''not_found'') st
               | Some i \<Rightarrow>
                   (case put_fields str_of body st (books st ! i) of
                      Inl e \<Rightarrow> crash e st
                    | Inr book' \<Rightarrow>
                        (Sent 200 (BookData book'),
                         st\<lparr>books := (books st)[i := book']\<rparr>,
                         [Books]))))"

definition do_PUT :: "(json \<Rightarrow> string) \<Rightarrow> request \<Rightarrow> store \<Rightarrow> outcome" where
  "do_PUT str_of req st =
     (let path = req_path req
      in case parse_resource_path path ''/api/authors/'' of (base, res_id) \<Rightarrow>
           if startswith base ''/api/authors/'' \<and> res_id \<noteq> None
           then put_author req (the res_id) st
           else
             (case parse_resource_path path ''/api/books/'' of (base, res_id) \<Rightarrow>
                if startswith base ''/api/books/'' \<and> res_id \<noteq> None
                then put_book str_of req (the res_id) st
                else reply 404 (Detail ''Not found'' ''not_found'') st))"

definition do_PATCH :: "(json \<Rightarrow> string) \<Rightarrow> request \<Rightarrow> store \<Rightarrow> outcome" where
  "do_PATCH str_of req st = do_PUT str_of req st"

subsection \<open>Notions used in the statements\<close>

text \<open>The loans of a user on a book that have not been returned.\<close>

definition active_loans :: "int \<Rightarrow> int \<Rightarrow> Loan list \<Rightarrow> Loan list" where
  "active_loans uid bid ls =
     filter (\<lambda>l. Loan_user_id l = uid \<and> Loan_book_id l = bid \<and> Loan_returned_at l = None) ls"

definition one_active_loan :: "Loan list \<Rightarrow> bool" where
  "one_active_loan ls = (\<forall>l \<in> set ls. length (active_loans (Loan_user_id l) (Loan_book_id l) ls) \<le> 1)"

text \<open>
  A small library for the examples: a member, a librarian, one author and one book with
  two copies, of which the member has borrowed one in the second state.
\<close>

definition alice :: User where
  "alice = \<lparr>User_id = 1, User_username = ''alice'', User_email = ''alice@example.org'',
     User_password_hash = ''x'', User_role = ''MEMBER''\<rparr>"

definition libby :: User where
  "libby = \<lparr>User_id = 2, User_username = ''libby'', User_email = ''libby@example.org'',
     User_password_hash = ''y'', User_role = ''LIBRARIAN''\<rparr>"

definition book1 :: Book where
  "book1 = \<lparr>Book_id = 1, Book_title = ''Emma'', Book_publication_year = 1815,
     Book_isbn = ''9780141439587'', Book_author_id = 1, Book_total_copies = 2,
     Book_available_copies = 2\<rparr>"

definition loan1 :: Loan where
  "loan1 = \<lparr>Loan_id = 1, Loan_user_id = 1, Loan_book_id = 1, Loan_borrowed_at = 1000,
     Loan_due_at = 1000 + timedelta_days 14, Loan_returned_at = None\<rparr>"

definition library0 :: store where
  "library0 = \<lparr>users = [alice, libby],
     authors = [\<lparr>Author_id = 1, Author_name = JStr ''Jane Austen''\<rparr>],
     books = [book1], loans = [],
     tokens = [''ta'' \<mapsto> 1, ''tl'' \<mapsto> 2]\<rparr>"

definition library1 :: store where
  "library1 = library0\<lparr>books := [book1\<lparr>Book_available_copies := 1\<rparr>], loans := [loan1]\<rparr>"

definition gina :: User where
  "gina = \<lparr>User_id = 3, User_username = ''gina'', User_email = ''gina@example.org'',
     User_password_hash = ''z'', User_role = ''GUEST''\<rparr>"

definition loan2 :: Loan where
  "loan2 = \<lparr>Loan_id = 2, Loan_user_id = 2, Loan_book_id = 1, Loan_borrowed_at = 1500,
     Loan_due_at = 1500 + timedelta_days 14, Loan_returned_at = None\<rparr>"

text \<open>
  The library with a third user, who registered with the role \<^verbatim>\<open>guest\<close>, before any
  loan (\<open>library3\<close>) and after the member and the librarian have borrowed the two copies
  (\<open>library2\<close>).
\<close>

definition library3 :: store where
  "library3 = library0\<lparr>users := [alice, libby, gina],
     tokens := [''ta'' \<mapsto> 1, ''tl'' \<mapsto> 2, ''tg'' \<mapsto> 3]\<rparr>"

definition library2 :: store where
  "library2 = library3\<lparr>books := [book1\<lparr>Book_available_copies := 0\<rparr>],
     loans := [loan1, loan2]\<rparr>"

definition request_of :: "string \<Rightarrow> string \<Rightarrow> (string \<times> json) list \<Rightarrow> request" where
  "request_of p token kvs =
     \<lparr>req_path = p, req_authorization = ''Token '' @ token, req_body = Some (JObj kvs)\<rparr>"

text \<open>
  \<open>first_at P xs i\<close>: position \<open>i\<close> holds the first element of the list that satisfies
  \<open>P\<close>. This is how a statement says which book or loan an id names when ids repeat.
\<close>

definition first_at :: "('a \<Rightarrow> bool) \<Rightarrow> 'a list \<Rightarrow> nat \<Rightarrow> bool" where
  "first_at P xs i = (i < length xs \<and> P (xs ! i) \<and> \<not> list_ex P (take i xs))"

text \<open>
  The resource prefix as the parser uses it, and the first segment of a remainder: what
  \<^verbatim>\<open>split('/')\<close> puts at index 0.
\<close>

definition with_slash :: "string \<Rightarrow> string" where
  "with_slash prefix = (if \<not> endswith prefix ''/'' then prefix @ ''/'' else prefix)"

definition first_segment :: "string \<Rightarrow> string" where
  "first_segment remainder = takeWhile (\<lambda>c. c \<noteq> CHR ''/'') remainder"

text \<open>Integer ceiling of a quotient, for comparison with \<^const>\<open>paginate\<close>.\<close>

definition ceil_div :: "int \<Rightarrow> int \<Rightarrow> int" where
  "ceil_div a b = - ((- a) div b)"

section \<open>Properties of the query utilities\<close>

subsection \<open>Rounding of a small quotient\<close>



lemma bit_length_upper: "n < 2 ^ bit_length n"
proof (induction n rule: bit_length.induct)
  case (1 n)
  show ?case
  proof (cases "n = 0")
    case True
    then show ?thesis by (simp add: bit_length.simps)
  next
    case False
    then have "n div 2 < 2 ^ bit_length (n div 2)" by (rule "1.IH")
    then have "n < 2 * 2 ^ bit_length (n div 2)" by linarith
    moreover have "bit_length n = Suc (bit_length (n div 2))"
      using False by (subst bit_length.simps) simp
    ultimately show ?thesis by simp
  qed
qed

lemma bit_length_lower: "0 < n \<Longrightarrow> 2 ^ (bit_length n - 1) \<le> n"
proof (induction n rule: bit_length.induct)
  case (1 n)
  then have n: "n \<noteq> 0" by simp
  have bl: "bit_length n = Suc (bit_length (n div 2))"
    using n by (subst bit_length.simps) simp
  show ?case
  proof (cases "n div 2 = 0")
    case True
    then have "bit_length (n div 2) = 0" by (simp add: bit_length.simps)
    then show ?thesis using bl "1.prems" by simp
  next
    case False
    then have ih: "2 ^ (bit_length (n div 2) - 1) \<le> n div 2"
      using "1.IH" [OF n] by simp
    have "bit_length (n div 2) \<noteq> 0"
      using False by (subst bit_length.simps) simp
    then obtain k where k: "bit_length (n div 2) = Suc k"
      by (cases "bit_length (n div 2)") auto
    have "(2::nat) ^ Suc k \<le> 2 * (n div 2)" using ih k by simp
    also have "\<dots> \<le> n" by simp
    finally show ?thesis using bl k by simp
  qed
qed

lemma round_quotient_underflow:
  assumes x: "0 < x" and y: "x * 2 ^ 1075 < y"
  shows "round_quotient x y = (0, - 1074)"
proof -
  define a where "a = bit_length (nat x)"
  define b where "b = bit_length (nat y)"
  have ypos: "0 < y"
  proof -
    have "0 < x * 2 ^ 1075" using x by simp
    then show ?thesis using y by linarith
  qed
  have "a \<noteq> 0"
    using x unfolding a_def by (subst bit_length.simps) simp
  then obtain a' where a': "a = Suc a'" by (cases a) auto
  have "(2::nat) ^ a' \<le> nat x"
    using bit_length_lower [of "nat x"] x a' unfolding a_def by simp
  then have lo: "(2::int) ^ a' \<le> x"
    using x by (metis of_nat_le_iff of_nat_numeral of_nat_power int_nat_eq less_imp_le)
  have "nat y < 2 ^ b" unfolding b_def by (rule bit_length_upper)
  then have hi: "y < 2 ^ b"
    using ypos by (metis of_nat_less_iff of_nat_numeral of_nat_power int_nat_eq less_imp_le)
  have "(2::int) ^ (a' + 1075) = 2 ^ a' * 2 ^ 1075" by (rule power_add)
  also have "\<dots> \<le> x * 2 ^ 1075" using lo by (rule mult_right_mono) simp
  also have "\<dots> < 2 ^ b" using y hi by linarith
  finally have "a' + 1075 < b" by (rule power_less_imp_less_exp [rotated]) simp
  then have d: "int a - int b \<le> - 1075" using a' by simp
  have e: "max (if y * 2 ^ nat (int a - int b) \<le> x * 2 ^ nat (- (int a - int b))
             then int a - int b else int a - int b - 1) (- 1022) - 52 = - 1074"
    using d by simp
  have q: "x * 2 ^ 1074 div y = 0"
  proof (rule div_pos_pos_trivial)
    show "0 \<le> x * 2 ^ 1074" using x by simp
    have "x * 2 ^ 1074 \<le> x * 2 ^ 1075" using x by (intro mult_left_mono power_increasing) simp_all
    then show "x * 2 ^ 1074 < y" using y by linarith
  qed
  have r: "x * 2 ^ 1074 mod y = x * 2 ^ 1074"
  proof (rule mod_pos_pos_trivial)
    show "0 \<le> x * 2 ^ 1074" using x by simp
    have "x * 2 ^ 1074 \<le> x * 2 ^ 1075" using x by (intro mult_left_mono power_increasing) simp_all
    then show "x * 2 ^ 1074 < y" using y by linarith
  qed
  have two: "2 * (x * 2 ^ 1074) = x * 2 ^ 1075"
  proof -
    have "(2::int) ^ 1075 = 2 ^ Suc 1074" by simp
    then show ?thesis by (simp only: power_Suc) 
  qed
  show ?thesis
    unfolding round_quotient_def round_half_even_def Let_def a_def [symmetric]
      b_def [symmetric] e
    using q r two y by simp
qed


lemma truediv_underflow:
  assumes "0 < x" and "x * 2 ^ 1075 < y"
  shows "truediv x y = Inr (Finite 0 (- 1074))"
proof -
  have "0 < x * 2 ^ 1075" using assms(1) by simp
  then have "0 < y" using assms(2) by linarith
  then show ?thesis
    using assms round_quotient_underflow [OF assms] by (simp add: truediv_def)
qed

lemma py_slice_nonneg:
  "0 \<le> i \<Longrightarrow> i \<le> j \<Longrightarrow> py_slice xs i j = take (nat (j - i)) (drop (nat i) xs)"
  by (cases "j \<le> int (length xs)") (auto simp: py_slice_def Let_def min_def)

lemma paginate_underflow:
  assumes "items \<noteq> []" and "int (length items) * 2 ^ 1075 < page_size"
  shows "paginate items page page_size =
    Inr (py_slice items ((max page 1 - 1) * page_size) ((max page 1 - 1) * page_size + page_size),
         \<lparr>pg_count = int (length items), pg_page = max page 1, pg_page_size = page_size,
          pg_total_pages = 0\<rparr>)"
proof -
  have len: "0 < int (length items)" using assms(1) by simp
  then have "0 < int (length items) * 2 ^ 1075" by simp
  then have ps: "1 \<le> page_size" using assms(2) by linarith
  then have m: "max page_size 1 = page_size" by simp
  show ?thesis
    unfolding paginate_def Let_def m
    using ps truediv_underflow [OF len assms(2)] by simp
qed

subsection \<open>Page counts that the floats represent\<close>

text \<open>
  For fewer than \<open>2 ^ 53\<close> items and a page size up to \<open>2 ^ 1074\<close> the rounded quotient
  has the ceiling of the exact one, and \<^const>\<open>paginate\<close> returns what its contract
  says: the inputs clamped to 1, the length of the list, the number of pages, and a slice
  that is empty beyond the last page.
\<close>



lemma ceil_div_bounds:
  assumes "0 < (b::int)"
  shows "(ceil_div a b - 1) * b < a" and "a \<le> ceil_div a b * b"
proof -
  define q where "q = (- a) div b"
  define r where "r = (- a) mod b"
  have eq: "- a = q * b + r" unfolding q_def r_def by simp
  have r: "0 \<le> r" "r < b" using assms unfolding r_def by simp_all
  have c: "ceil_div a b = - q" by (simp add: ceil_div_def q_def)
  have qb: "(- q) * b = - (q * b)" by simp
  have qb1: "(- q - 1) * b = - (q * b) - b" by (simp add: algebra_simps)
  show "a \<le> ceil_div a b * b" unfolding c qb using eq r by linarith
  show "(ceil_div a b - 1) * b < a" unfolding c qb1 using eq r by linarith
qed

lemma ceil_div_unique:
  assumes "0 < (b::int)" and "(c - 1) * b < a" and "a \<le> c * b"
  shows "ceil_div a b = c"
proof -
  have lo: "(ceil_div a b - 1) * b < a" and hi: "a \<le> ceil_div a b * b"
    using ceil_div_bounds [OF assms(1)] by simp_all
  have "(c - 1) * b < ceil_div a b * b" using assms(2) hi by linarith
  then have 1: "c - 1 < ceil_div a b" using assms(1) by (simp add: mult_less_cancel_right)
  have "(ceil_div a b - 1) * b < c * b" using lo assms(3) by linarith
  then have 2: "ceil_div a b - 1 < c" using assms(1) by (simp add: mult_less_cancel_right)
  from 1 2 show ?thesis by linarith
qed

lemma round_half_even_cases:
  "round_half_even n y = n div y \<or> (round_half_even n y = n div y + 1 \<and> y \<le> 2 * (n mod y))"
  by (auto simp: round_half_even_def Let_def)

lemma round_half_even_up:
  "y < 2 * (n mod y) \<Longrightarrow> round_half_even n y = n div y + 1"
  by (simp add: round_half_even_def Let_def)

lemma ceil_round_half_even:
  assumes y: "0 < y" and x: "0 < x"
    and big: "y \<le> x * 2 ^ k"
    and fine: "y \<le> x \<longrightarrow> y < 2 * 2 ^ k"
  shows "ceil_div (round_half_even (x * 2 ^ k) y) (2 ^ k) = ceil_div x y"
proof (rule ceil_div_unique)
  let ?P = "(2::int) ^ k"
  let ?N = "x * ?P"
  let ?q = "?N div y"
  let ?r = "?N mod y"
  let ?m = "round_half_even ?N y"
  let ?c = "ceil_div x y"
  have P: "0 < ?P" by simp
  show "0 < ?P" by (rule P)
  have N: "?N = ?q * y + ?r" by simp
  have r: "0 \<le> ?r" "?r < y" using y by simp_all
  have clo: "(?c - 1) * y < x" and chi: "x \<le> ?c * y"
    using ceil_div_bounds [OF y] by simp_all
  have q1: "1 \<le> ?q"
  proof -
    have "y div y \<le> ?N div y" using big y by (intro zdiv_mono1) simp_all
    then show ?thesis using y by simp
  qed
  have mq: "?q \<le> ?m" using round_half_even_cases [of ?N y] by auto
  \<comment> \<open>upper bound\<close>
  have Nhi: "?N \<le> ?c * ?P * y"
  proof -
    have "x * ?P \<le> (?c * y) * ?P" using chi P by (intro mult_right_mono) simp_all
    then show ?thesis by (simp add: algebra_simps)
  qed
  show "?m \<le> ?c * ?P"
  proof (cases "?m = ?q")
    case True
    have "?q * y \<le> ?N" using N r by linarith
    then have "?q * y \<le> (?c * ?P) * y" using Nhi by linarith
    then have "?q \<le> ?c * ?P" using y by (simp add: mult_le_cancel_right)
    then show ?thesis using True by simp
  next
    case False
    then have m: "?m = ?q + 1" and half: "y \<le> 2 * ?r"
      using round_half_even_cases [of ?N y] by auto
    have "0 < ?r" using half y by linarith
    then have "?q * y < ?N" using N by linarith
    then have "?q * y < (?c * ?P) * y" using Nhi by linarith
    then have "?q < ?c * ?P" using y by (simp add: mult_less_cancel_right)
    then show ?thesis using m by linarith
  qed
  \<comment> \<open>lower bound\<close>
  show "(?c - 1) * ?P < ?m"
  proof (cases "?c \<le> 1")
    case True
    then have "(?c - 1) * ?P \<le> 0" using P by (simp add: mult_le_0_iff)
    then show ?thesis using q1 mq by linarith
  next
    case False
    then have c2: "1 \<le> ?c - 1" by simp
    have "y \<le> (?c - 1) * y" using c2 y by (simp add: mult_le_cancel_right1)
    then have "y \<le> x" using clo by linarith
    then have small: "y < 2 * ?P" using fine by simp
    have x1: "(?c - 1) * y + 1 \<le> x" using clo by linarith
    have "((?c - 1) * y + 1) * ?P \<le> x * ?P" using x1 P by (intro mult_right_mono) simp_all
    then have Nlo: "(?c - 1) * ?P * y + ?P \<le> ?N" by (simp add: algebra_simps)
    have qlo: "(?c - 1) * ?P \<le> ?q"
    proof -
      have "((?c - 1) * ?P * y) div y \<le> ?N div y"
        using Nlo P y by (intro zdiv_mono1) linarith+
      then show ?thesis using y by simp
    qed
    show ?thesis
    proof (cases "(?c - 1) * ?P < ?q")
      case True
      then show ?thesis using mq by linarith
    next
      case False
      then have qeq: "?q = (?c - 1) * ?P" using qlo by linarith
      have "?q * y = (?c - 1) * ?P * y" using qeq by simp
      moreover have "?r = ?N - ?q * y" using N by linarith
      ultimately have "?P \<le> ?r" using Nlo by linarith
      then have "y < 2 * ?r" using small by linarith
      then have "?m = ?q + 1" by (rule round_half_even_up)
      then show ?thesis using qeq by linarith
    qed
  qed
qed



lemma bit_length_int:
  assumes "0 < x"
  obtains a where "bit_length (nat x) = Suc a" and "2 ^ a \<le> x" and "x < 2 * 2 ^ a"
proof -
  have "bit_length (nat x) \<noteq> 0"
    using assms by (subst bit_length.simps) simp
  then obtain a where a: "bit_length (nat x) = Suc a" by (cases "bit_length (nat x)") auto
  have "(2::nat) ^ a \<le> nat x"
    using bit_length_lower [of "nat x"] assms a by simp
  then have "int (2 ^ a) \<le> int (nat x)" by (simp only: of_nat_le_iff)
  then have lo: "(2::int) ^ a \<le> x" using assms by simp
  have "nat x < 2 ^ Suc a" using bit_length_upper [of "nat x"] a by simp
  then have "int (nat x) < int (2 ^ Suc a)" by (simp only: of_nat_less_iff)
  then have hi: "x < 2 * 2 ^ a" using assms by simp
  from a lo hi show ?thesis by (rule that)
qed

lemma pow2_mono: "m \<le> n \<Longrightarrow> (2::int) ^ m \<le> 2 ^ n"
  by (rule power_increasing) simp_all

lemma round_quotient_exponent:
  assumes x: "0 < x" and x53: "x < 2 ^ 53" and y: "0 < y" and big: "y \<le> x * 2 ^ 1074"
  shows "\<exists>k. round_quotient x y = (round_half_even (x * 2 ^ k) y, - int k)
    \<and> y \<le> x * 2 ^ k \<and> (y \<le> x \<longrightarrow> y < 2 * 2 ^ k)"
proof -
  obtain a where a: "bit_length (nat x) = Suc a" and xlo: "2 ^ a \<le> x" and xhi: "x < 2 * 2 ^ a"
    using bit_length_int [OF x] by blast
  obtain b where b: "bit_length (nat y) = Suc b" and ylo: "2 ^ b \<le> y" and yhi: "y < 2 * 2 ^ b"
    using bit_length_int [OF y] by blast
  have "(2::int) ^ a < 2 ^ 53" using xlo x53 by linarith
  then have a53: "a < 53" by (rule power_less_imp_less_exp [rotated]) simp
  have d: "int (bit_length (nat x)) - int (bit_length (nat y)) = int a - int b"
    using a b by simp
  have step: "x * 2 ^ m \<le> x * 2 ^ n" if "m \<le> n" for m n
    using x that by (intro mult_left_mono pow2_mono) simp_all
  show ?thesis
  proof (cases "b \<le> a")
    case True
    define n where "n = a - b"
    have n: "int a - int b = int n" "n \<le> 52" using True a53 by (simp_all add: n_def)
    have yb: "y < 2 * 2 ^ (52 - n + b)"
    proof -
      have "(2::int) ^ b \<le> 2 ^ (52 - n + b)" by (rule pow2_mono) simp
      then show ?thesis using yhi by linarith
    qed
    show ?thesis
    proof (cases "y * 2 ^ n \<le> x")
      case le: True
      have rq: "round_quotient x y = (round_half_even (x * 2 ^ (52 - n)) y, - int (52 - n))"
        using le n by (simp add: round_quotient_def Let_def d nat_diff_distrib')
      have "y * 1 \<le> y * 2 ^ n" using y by (intro mult_left_mono) simp_all
      then have "y \<le> x" using le by simp
      also have "x = x * 2 ^ 0" by simp
      also have "\<dots> \<le> x * 2 ^ (52 - n)" by (rule step) simp
      finally have f1: "y \<le> x * 2 ^ (52 - n)" .
      have "(2::int) ^ b \<le> 2 ^ (52 - n)"
        using True a53 by (intro pow2_mono) (simp add: n_def)
      then have f2: "y < 2 * 2 ^ (52 - n)" using yhi by linarith
      from rq f1 f2 show ?thesis by blast
    next
      case gt: False
      have rq: "round_quotient x y = (round_half_even (x * 2 ^ (53 - n)) y, - int (53 - n))"
        using gt n by (simp add: round_quotient_def Let_def d nat_diff_distrib')
      have "(2::int) ^ b \<le> 2 ^ (53 - n)"
        using True a53 by (intro pow2_mono) (simp add: n_def)
      then have f2: "y < 2 * 2 ^ (53 - n)" using yhi by linarith
      have "(2::int) ^ Suc b \<le> 2 ^ (a + (53 - n))"
        using True a53 by (intro pow2_mono) (simp add: n_def)
      also have "\<dots> = 2 ^ a * 2 ^ (53 - n)" by (rule power_add)
      also have "\<dots> \<le> x * 2 ^ (53 - n)" using xlo by (intro mult_right_mono) simp_all
      finally have f1: "y \<le> x * 2 ^ (53 - n)" using yhi by simp
      from rq f1 f2 show ?thesis by blast
    qed
  next
    case False
    define n where "n = b - a"
    have n: "int a - int b = - int n" "0 < n" using False by (simp_all add: n_def)
    have "(2::int) * 2 ^ a = 2 ^ Suc a" by simp
    also have "\<dots> \<le> 2 ^ b" using False by (intro pow2_mono) simp
    finally have "x < y" using xhi ylo by linarith
    then have f2: "y \<le> x \<longrightarrow> y < 2 * 2 ^ k" for k by simp
    have low: "y \<le> x * 2 ^ (n + 53)"
    proof -
      have "(2::int) ^ Suc b \<le> 2 ^ (a + (n + 53))"
        using False by (intro pow2_mono) (simp add: n_def)
      also have "\<dots> = 2 ^ a * 2 ^ (n + 53)" by (rule power_add)
      also have "\<dots> \<le> x * 2 ^ (n + 53)" using xlo by (intro mult_right_mono) simp_all
      finally show ?thesis using yhi by simp
    qed
    show ?thesis
    proof (cases "y \<le> x * 2 ^ n")
      case le: True
      show ?thesis
      proof (cases "n \<le> 1022")
        case True
        have rq: "round_quotient x y = (round_half_even (x * 2 ^ (n + 52)) y, - int (n + 52))"
          using le n True by (simp add: round_quotient_def Let_def d nat_add_distrib add.commute)
        have "x * 2 ^ n \<le> x * 2 ^ (n + 52)" by (rule step) simp
        then have f1: "y \<le> x * 2 ^ (n + 52)" using le by linarith
        from rq f1 f2 show ?thesis by blast
      next
        case False
        have rq: "round_quotient x y = (round_half_even (x * 2 ^ 1074) y, - int 1074)"
          using le n False by (simp add: round_quotient_def Let_def d)
        from rq big f2 show ?thesis by blast
      qed
    next
      case gt: False
      show ?thesis
      proof (cases "n + 1 \<le> 1022")
        case True
        have rq: "round_quotient x y = (round_half_even (x * 2 ^ (n + 53)) y, - int (n + 53))"
          using gt n True by (simp add: round_quotient_def Let_def d nat_add_distrib add.commute)
        from rq low f2 show ?thesis by blast
      next
        case False
        have rq: "round_quotient x y = (round_half_even (x * 2 ^ 1074) y, - int 1074)"
          using gt n False by (simp add: round_quotient_def Let_def d)
        from rq big f2 show ?thesis by blast
      qed
    qed
  qed
qed


lemma round_half_even_le: "0 < y \<Longrightarrow> 0 \<le> n \<Longrightarrow> round_half_even n y \<le> n + 1"
proof -
  assume y: "0 < y" and n: "0 \<le> n"
  have "n div y \<le> n div 1" using n y by (intro zdiv_mono2) simp_all
  then have "n div y \<le> n" by simp
  then show ?thesis using round_half_even_cases [of n y] by auto
qed

lemma ceil_truediv:
  assumes x: "0 < x" and x53: "x < 2 ^ 53" and y: "0 < y" and big: "y \<le> x * 2 ^ 1074"
  shows "\<exists>f. truediv x y = Inr f \<and> math_ceil f = Inr (ceil_div x y)"
proof -
  obtain k where rq: "round_quotient x y = (round_half_even (x * 2 ^ k) y, - int k)"
    and f1: "y \<le> x * 2 ^ k" and f2: "y \<le> x \<longrightarrow> y < 2 * 2 ^ k"
    using round_quotient_exponent [OF assms] by blast
  let ?m = "round_half_even (x * 2 ^ k) y"
  have c: "ceil_div ?m (2 ^ k) = ceil_div x y"
    using ceil_round_half_even [OF y x f1 f2] .
  show ?thesis
  proof (cases "k = 0")
    case True
    have "?m \<le> x + 1" using round_half_even_le [OF y, of x] x True by simp
    also have "\<dots> < 2 ^ 1024" using x53 by simp
    finally have small: "\<not> 2 ^ 1024 \<le> ?m" by simp
    have t: "truediv x y = Inr (Finite ?m 0)"
      using x y rq small True by (simp add: truediv_def)
    have "ceil_div ?m 1 = ?m" by (simp add: ceil_div_def)
    then have "math_ceil (Finite ?m 0) = Inr (ceil_div x y)" using c True by simp
    with t show ?thesis by blast
  next
    case False
    have t: "truediv x y = Inr (Finite ?m (- int k))"
      using x y rq False by (simp add: truediv_def)
    have "math_ceil (Finite ?m (- int k)) = Inr (ceil_div ?m (2 ^ k))"
      using False by (simp add: ceil_div_def)
    with t c show ?thesis by simp
  qed
qed

lemma paginate_in_range:
  assumes len: "int (length items) < 2 ^ 53" and size: "page_size \<le> 2 ^ 1074"
  shows "paginate items page page_size =
    Inr (take (nat (max page_size 1)) (drop (nat ((max page 1 - 1) * max page_size 1)) items),
         \<lparr>pg_count = int (length items), pg_page = max page 1,
          pg_page_size = max page_size 1,
          pg_total_pages = ceil_div (int (length items)) (max page_size 1)\<rparr>)"
proof -
  let ?n = "int (length items)"
  let ?p = "max page 1"
  let ?s = "max page_size 1"
  have s: "0 < ?s" by simp
  have sl: "py_slice items ((?p - 1) * ?s) ((?p - 1) * ?s + ?s)
      = take (nat ?s) (drop (nat ((?p - 1) * ?s)) items)"
    using py_slice_nonneg [of "(?p - 1) * ?s" "(?p - 1) * ?s + ?s" items] by simp
  have pages: "(case truediv ?n ?s of Inl e \<Rightarrow> Inl e | Inr f \<Rightarrow> math_ceil f)
      = Inr (ceil_div ?n ?s)"
  proof (cases "items = []")
    case True
    then show ?thesis by (simp add: truediv_def ceil_div_def)
  next
    case False
    then have n: "0 < ?n" by simp
    have "?s \<le> 1 * 2 ^ 1074" using size by simp
    also have "\<dots> \<le> ?n * 2 ^ 1074"
    proof (rule mult_right_mono)
      show "1 \<le> ?n" using n by linarith
      show "(0::int) \<le> 2 ^ 1074" by simp
    qed
    finally have "?s \<le> ?n * 2 ^ 1074" .
    from ceil_truediv [OF n len s this] show ?thesis by auto
  qed
  show ?thesis
    unfolding paginate_def Let_def sl if_P [OF s] using pages by simp
qed

lemma paginate_beyond_last_page:
  assumes "ceil_div (int (length items)) (max page_size 1) < max page 1"
  shows "take (nat (max page_size 1)) (drop (nat ((max page 1 - 1) * max page_size 1)) items) = []"
proof -
  let ?n = "int (length items)"
  let ?p = "max page 1"
  let ?s = "max page_size 1"
  have s: "0 < ?s" by simp
  have "?n \<le> ceil_div ?n ?s * ?s" using ceil_div_bounds [OF s] by simp
  also have "\<dots> \<le> (?p - 1) * ?s" using assms s by (intro mult_right_mono) simp_all
  finally have "length items \<le> nat ((?p - 1) * ?s)" by simp
  then show ?thesis by simp
qed

text \<open>
  Claim C6. \<^verbatim>\<open>paginate\<close> computes the number of pages as
  \<^verbatim>\<open>math.ceil(total / page_size)\<close>, a division in floating point. For one item and the
  page size \<open>2 ^ 1100\<close> the quotient rounds to \<open>0.0\<close>, so the function reports no page at
  all, where the ceiling of the quotient is 1; the first page, which holds the item, is
  then beyond the last page reported, and not empty.
\<close>

theorem paginate_total_pages_underflow:
  "paginate [x] 1 (2 ^ 1100) =
     Inr ([x], \<lparr>pg_count = 1, pg_page = 1, pg_page_size = 2 ^ 1100, pg_total_pages = 0\<rparr>)
   \<and> ceil_div 1 (2 ^ 1100) = 1"
proof
  have "int (length [x]) * 2 ^ 1075 < 2 ^ 1100" by simp
  from paginate_underflow [OF _ this, of 1]
  show "paginate [x] 1 (2 ^ 1100) =
     Inr ([x], \<lparr>pg_count = 1, pg_page = 1, pg_page_size = 2 ^ 1100, pg_total_pages = 0\<rparr>)"
    by (simp add: py_slice_def)
next
  have "(1::int) < 2 ^ 1100" by simp
  then have "(- 1) div (2 ^ 1100 :: int) = - 1"
    by (simp add: div_eq_minus1)
  then show "ceil_div 1 (2 ^ 1100) = 1" by (simp add: ceil_div_def)
qed

section \<open>Properties of the handlers\<close>



lemma find_index_Some:
  "find_index P xs = Some i \<Longrightarrow> i < length xs \<and> P (xs ! i)"
proof (induction xs arbitrary: i)
  case Nil
  then show ?case by simp
next
  case (Cons x xs)
  then show ?case by (cases "P x") (auto split: option.splits)
qed

lemma find_index_update:
  "find_index P xs = Some i \<Longrightarrow> P y \<Longrightarrow> find_index P (xs[i := y]) = Some i"
proof (induction xs arbitrary: i)
  case Nil
  then show ?case by simp
next
  case (Cons x xs)
  then show ?case by (cases "P x") (auto split: option.splits)
qed

lemma find_None_filter: "find P xs = None \<longleftrightarrow> filter P xs = []"
  by (induction xs) auto

lemma find_index_None: "find_index P xs = None \<Longrightarrow> \<not> list_ex P xs"
  by (induction xs) (auto split: if_splits)

lemma first_at_find_index: "first_at P xs i \<Longrightarrow> find_index P xs = Some i"
proof (induction xs arbitrary: i)
  case Nil
  then show ?case by (simp add: first_at_def)
next
  case (Cons x xs)
  show ?case
  proof (cases i)
    case 0
    then show ?thesis using Cons.prems by (simp add: first_at_def)
  next
    case (Suc j)
    then have "first_at P xs j" and "\<not> P x"
      using Cons.prems by (simp_all add: first_at_def)
    then show ?thesis using Cons.IH [of j] Suc by simp
  qed
qed

lemma find_index_first_at: "find_index P xs = Some i \<Longrightarrow> first_at P xs i"
proof (induction xs arbitrary: i)
  case Nil
  then show ?case by simp
next
  case (Cons x xs)
  show ?case
  proof (cases "P x")
    case True
    then show ?thesis using Cons.prems by (simp add: first_at_def)
  next
    case False
    then obtain j where j: "find_index P xs = Some j" "i = Suc j"
      using Cons.prems by (auto split: option.splits)
    then have "first_at P xs j" using Cons.IH by simp
    then show ?thesis using False j by (simp add: first_at_def)
  qed
qed

lemma or_empty_obj: "or_empty (Some (JObj kvs)) = JObj kvs"
  by (cases kvs) (simp_all add: or_empty_def py_or_def)

lemma book_field_int:
  assumes "map_of kvs ''book_id'' = Some (JInt bid)
      \<or> (map_of kvs ''book_id'' = None \<and> map_of kvs ''book'' = Some (JInt bid))"
    and "bid \<noteq> 0"
  shows "book_field (JObj kvs) = Inr (JInt bid)"
  using assms by (auto simp: book_field_def)

lemma upper_roles:
  "upper ''MEMBER'' = ''MEMBER''" "upper ''LIBRARIAN'' = ''LIBRARIAN''" "upper ''ADMIN'' = ''ADMIN''"
  by (simp_all add: upper_def upper_char_def lower_letters_def upper_letters_def)

lemma require_role_anyone: "User_role u \<in> set anyone \<Longrightarrow> require_role (Some u) anyone"
  by (auto simp: require_role_def anyone_def upper_roles)

lemma require_role_staff: "User_role u \<in> set staff \<Longrightarrow> require_role (Some u) staff"
  by (auto simp: require_role_def staff_def upper_roles)

lemma role_passes_anyone: "upper (User_role u) \<in> set anyone \<Longrightarrow> require_role (Some u) anyone"
  by (auto simp: require_role_def anyone_def upper_roles)

lemma role_passes_staff: "upper (User_role u) \<in> set staff \<Longrightarrow> require_role (Some u) staff"
  by (auto simp: require_role_def staff_def upper_roles)

lemma member_not_staff: "User_role u = ''MEMBER'' \<Longrightarrow> \<not> require_role (Some u) staff"
  by (simp add: require_role_def staff_def upper_roles)

lemmas example_defs = alice_def libby_def gina_def book1_def loan1_def loan2_def
  library0_def library1_def library2_def library3_def request_of_def

lemmas auth_defs = get_auth_user_def get_user_by_token_def startswith_def strip_def
  strip_chars_def strip_space_def

lemmas body_defs = or_empty_def py_or_def book_field_def

lemmas role_defs = require_role_def anyone_def staff_def upper_def upper_char_def
  lower_letters_def upper_letters_def

lemmas parser_defs = parse_resource_path_def endswith_def startswith_def int_of_str_def
  strip_chars_def int_space_def digit_val_def str_int_def str_nat.simps digit_char_def
  max_str_digits_def

subsection \<open>Borrowing\<close>

text \<open>
  The borrow branch on a request that passes the role check and whose body leads, by
  \<^const>\<open>book_field\<close> and \<^const>\<open>py_int\<close>, to an available book that the user has not
  on loan.
\<close>

lemma borrow_general:
  assumes auth: "get_auth_user req st = Some u"
    and role: "require_role (Some u) anyone"
    and field: "book_field (or_empty (req_body req)) = Inr v"
    and given: "truthy v"
    and bid: "py_int v = Inr bid"
    and book: "find_index (\<lambda>b. Book_id b = bid) (books st) = Some i"
    and copies: "1 \<le> Book_available_copies (books st ! i)"
    and none: "active_loans (User_id u) bid (loans st) = []"
  shows "\<exists>l st'. borrow req now st = (Sent 201 (LoanData l), st', [Books, Loans])
     \<and> books st' = (books st)[i := (books st ! i)\<lparr>Book_available_copies :=
                       Book_available_copies (books st ! i) - 1\<rparr>]
     \<and> find_index (\<lambda>b. Book_id b = bid) (books st') = Some i
     \<and> Book_available_copies (books st' ! i) = Book_available_copies (books st ! i) - 1
     \<and> loans st' = loans st @ [l]
     \<and> Loan_user_id l = User_id u \<and> Loan_book_id l = bid \<and> Loan_returned_at l = None
     \<and> Loan_borrowed_at l = now \<and> Loan_due_at l = Loan_borrowed_at l + timedelta_days 14
     \<and> active_loans (User_id u) bid (loans st') = [l]
     \<and> users st' = users st \<and> authors st' = authors st \<and> tokens st' = tokens st"
proof -
  let ?b = "books st ! i"
  let ?b' = "?b\<lparr>Book_available_copies := Book_available_copies ?b - 1\<rparr>"
  let ?l = "\<lparr>Loan_id = max_default (map Loan_id (loans st)) 0 + 1, Loan_user_id = User_id u,
             Loan_book_id = bid, Loan_borrowed_at = now,
             Loan_due_at = now + timedelta_days 14, Loan_returned_at = None\<rparr>"
  let ?st' = "st\<lparr>books := (books st)[i := ?b'], loans := loans st @ [?l]\<rparr>"
  have i: "i < length (books st)" and idb: "Book_id ?b = bid"
    using find_index_Some [OF book] by simp_all
  have nofind: "find (\<lambda>l. Loan_user_id l = User_id u \<and> Loan_book_id l = bid
                  \<and> Loan_returned_at l = None) (loans st) = None"
    using none by (simp add: find_None_filter active_loans_def)
  have run: "borrow req now st = (Sent 201 (LoanData ?l), ?st', [Books, Loans])"
    using auth role field given bid book copies nofind
    by (simp add: borrow_def Let_def)
  have idx: "find_index (\<lambda>b. Book_id b = bid) (books ?st') = Some i"
    using find_index_update [OF book, of ?b'] idb by simp
  have act: "active_loans (User_id u) bid (loans ?st') = [?l]"
    using none by (simp add: active_loans_def)
  show ?thesis
    using run idx act i by (intro exI [of _ ?l] exI [of _ ?st']) simp
qed

text \<open>
  Claim C1 says that every authenticated user with a valid request is answered 201.
  Registration stores whatever role it is given, in upper case; the user registered as
  \<^verbatim>\<open>guest\<close> has a token that resolves, asks for a book that has two copies and holds no
  loan, and is answered 401: the handler lets the three roles of the data model pass
  and nobody else.
\<close>

theorem borrow_guest_unauthenticated:
  "get_auth_user (request_of ''/api/loans/borrow/'' ''tg'' [(''book_id'', JInt 1)]) library3
     = Some gina
   \<and> first_at (\<lambda>b. Book_id b = 1) (books library3) 0
   \<and> 1 \<le> Book_available_copies (books library3 ! 0)
   \<and> active_loans (User_id gina) 1 (loans library3) = []
   \<and> borrow (request_of ''/api/loans/borrow/'' ''tg'' [(''book_id'', JInt 1)]) 1000 library3
       = (Sent 401 (Detail ''Authentication required'' ''not_authenticated''), library3, [])"
  by (simp add: borrow_def Let_def auth_defs example_defs role_defs first_at_def
      active_loans_def reply_def)

text \<open>
  Claim C1, amended. A valid borrow request: the token resolves to a user whose role is,
  in upper case, MEMBER, LIBRARIAN or ADMIN (the role check of the handler); the body is
  an object that gives \<^verbatim>\<open>book_id\<close>, or \<^verbatim>\<open>book\<close> when there is no \<^verbatim>\<open>book_id\<close>, as an
  integer other than 0; the first book with that id has at least one available copy;
  and the user has no open loan on that id. The handler then answers 201 with the new
  loan and saves books and loans: that book has one available copy less and is otherwise
  as before, as are all other books; the loans are the old ones followed by the new
  loan, which belongs to the user and the book, is not returned, was borrowed now and is
  due 14 days later; it is the only open loan of the user on the book.
\<close>

theorem borrow_valid:
  assumes auth: "get_auth_user req st = Some u"
    and role: "upper (User_role u) \<in> set anyone"
    and body: "req_body req = Some (JObj kvs)"
    and named: "map_of kvs ''book_id'' = Some (JInt bid)
      \<or> (map_of kvs ''book_id'' = None \<and> map_of kvs ''book'' = Some (JInt bid))"
    and nonzero: "bid \<noteq> 0"
    and book: "first_at (\<lambda>b. Book_id b = bid) (books st) i"
    and copies: "1 \<le> Book_available_copies (books st ! i)"
    and none: "active_loans (User_id u) bid (loans st) = []"
  shows "\<exists>l st'. borrow req now st = (Sent 201 (LoanData l), st', [Books, Loans])
     \<and> books st' = (books st)[i := (books st ! i)\<lparr>Book_available_copies :=
                       Book_available_copies (books st ! i) - 1\<rparr>]
     \<and> first_at (\<lambda>b. Book_id b = bid) (books st') i
     \<and> Book_available_copies (books st' ! i) = Book_available_copies (books st ! i) - 1
     \<and> loans st' = loans st @ [l]
     \<and> Loan_user_id l = User_id u \<and> Loan_book_id l = bid \<and> Loan_returned_at l = None
     \<and> Loan_borrowed_at l = now \<and> Loan_due_at l = Loan_borrowed_at l + timedelta_days 14
     \<and> active_loans (User_id u) bid (loans st') = [l]
     \<and> users st' = users st \<and> authors st' = authors st \<and> tokens st' = tokens st"
proof -
  have field: "book_field (or_empty (req_body req)) = Inr (JInt bid)"
    using book_field_int [OF named nonzero] by (simp add: body or_empty_obj)
  have given: "truthy (JInt bid)" using nonzero by simp
  have conv: "py_int (JInt bid) = Inr bid" by simp
  note idx = first_at_find_index [OF book]
  from borrow_general [OF auth role_passes_anyone [OF role] field given conv idx copies none, of now]
  obtain l st' where r: "borrow req now st = (Sent 201 (LoanData l), st', [Books, Loans])"
    "books st' = (books st)[i := (books st ! i)\<lparr>Book_available_copies :=
                       Book_available_copies (books st ! i) - 1\<rparr>]"
    "find_index (\<lambda>b. Book_id b = bid) (books st') = Some i"
    "Book_available_copies (books st' ! i) = Book_available_copies (books st ! i) - 1"
    "loans st' = loans st @ [l]"
    "Loan_user_id l = User_id u" "Loan_book_id l = bid" "Loan_returned_at l = None"
    "Loan_borrowed_at l = now" "Loan_due_at l = Loan_borrowed_at l + timedelta_days 14"
    "active_loans (User_id u) bid (loans st') = [l]"
    "users st' = users st" "authors st' = authors st" "tokens st' = tokens st"
    by blast
  have "first_at (\<lambda>b. Book_id b = bid) (books st') i"
    using r(3) by (rule find_index_first_at)
  with r show ?thesis by blast
qed

theorem borrow_valid_witness:
  "get_auth_user (request_of ''/api/loans/borrow/'' ''ta'' [(''book_id'', JInt 1)]) library3
     = Some alice
   \<and> upper (User_role alice) \<in> set anyone
   \<and> req_body (request_of ''/api/loans/borrow/'' ''ta'' [(''book_id'', JInt 1)])
       = Some (JObj [(''book_id'', JInt 1)])
   \<and> (map_of [(''book_id'', JInt 1)] ''book_id'' = Some (JInt 1)
        \<or> (map_of [(''book_id'', JInt 1)] ''book_id'' = None
            \<and> map_of [(''book_id'', JInt 1)] ''book'' = Some (JInt 1)))
   \<and> (1::int) \<noteq> 0
   \<and> first_at (\<lambda>b. Book_id b = 1) (books library3) 0
   \<and> 1 \<le> Book_available_copies (books library3 ! 0)
   \<and> active_loans (User_id alice) 1 (loans library3) = []
   \<and> (\<exists>l st'. borrow (request_of ''/api/loans/borrow/'' ''ta'' [(''book_id'', JInt 1)])
                  1000 library3 = (Sent 201 (LoanData l), st', [Books, Loans])
        \<and> Book_available_copies (books st' ! 0) = 1
        \<and> loans st' = [l] \<and> Loan_user_id l = 1 \<and> Loan_book_id l = 1
        \<and> Loan_due_at l = 1000 + timedelta_days 14)"
proof -
  let ?kvs = "[(''book_id'', JInt 1)]"
  let ?r = "request_of ''/api/loans/borrow/'' ''ta'' ?kvs"
  have h1: "get_auth_user ?r library3 = Some alice"
    by (simp add: auth_defs example_defs)
  have h2: "upper (User_role alice) \<in> set anyone" by (simp add: alice_def role_defs)
  have h3: "req_body ?r = Some (JObj ?kvs)" by (simp add: request_of_def)
  have h4: "map_of ?kvs ''book_id'' = Some (JInt 1)
      \<or> (map_of ?kvs ''book_id'' = None \<and> map_of ?kvs ''book'' = Some (JInt 1))"
    by simp
  have h5: "(1::int) \<noteq> 0" by simp
  have h6: "first_at (\<lambda>b. Book_id b = 1) (books library3) 0"
    by (simp add: example_defs first_at_def)
  have h7: "1 \<le> Book_available_copies (books library3 ! 0)" by (simp add: example_defs)
  have h8: "active_loans (User_id alice) 1 (loans library3) = []"
    by (simp add: example_defs active_loans_def)
  from borrow_valid [OF h1 h2 h3 h4 h5 h6 h7 h8, of 1000]
  obtain l st' where
    "borrow ?r 1000 library3 = (Sent 201 (LoanData l), st', [Books, Loans])"
    "Book_available_copies (books st' ! 0) = Book_available_copies (books library3 ! 0) - 1"
    "loans st' = loans library3 @ [l]"
    "Loan_user_id l = User_id alice" "Loan_book_id l = 1"
    "Loan_borrowed_at l = 1000" "Loan_due_at l = Loan_borrowed_at l + timedelta_days 14"
    by blast
  then have "\<exists>l st'. borrow ?r 1000 library3 = (Sent 201 (LoanData l), st', [Books, Loans])
        \<and> Book_available_copies (books st' ! 0) = 1
        \<and> loans st' = [l] \<and> Loan_user_id l = 1 \<and> Loan_book_id l = 1
        \<and> Loan_due_at l = 1000 + timedelta_days 14"
    by (intro exI [of _ l] exI [of _ st']) (simp add: example_defs)
  with h1 h2 h3 h4 h5 h6 h7 h8 show ?thesis by blast
qed

text \<open>The same request, evaluated: the library after it is \<^const>\<open>library1\<close>.\<close>

lemma borrow_example:
  "borrow (request_of ''/api/loans/borrow/'' ''ta'' [(''book_id'', JInt 1)]) 1000 library0
     = (Sent 201 (LoanData loan1), library1, [Books, Loans])"
  by (simp add: borrow_def Let_def auth_defs body_defs example_defs require_role_def anyone_def
      upper_def upper_char_def lower_letters_def upper_letters_def max_default_def)

lemma borrow_cases:
  assumes "borrow req now st = (r, st', saved)"
  shows "(st' = st \<and> saved = [] \<and> (\<forall>l. r \<noteq> Sent 201 (LoanData l)))
    \<or> (\<exists>u bid l. r = Sent 201 (LoanData l) \<and> saved = [Books, Loans]
          \<and> active_loans u bid (loans st) = []
          \<and> loans st' = loans st @ [l] \<and> Loan_user_id l = u \<and> Loan_book_id l = bid)"
  using assms
  by (auto simp: borrow_def Let_def reply_def crash_def active_loans_def find_None_filter
      split: option.splits sum.splits exn.splits if_splits)

text \<open>
  Claim C9. A borrow request that fails, whatever the reason (no or a wrong token, a
  missing or non-integer \<^verbatim>\<open>book_id\<close>, an unknown book, no copy left, a loan already
  open, or an exception that ends the request), saves no collection: the data files
  after the request are those before it.
\<close>

theorem borrow_failure_atomic:
  assumes "borrow req now st = (r, st', saved)" and "\<forall>p. r \<noteq> Sent 201 p"
  shows "st' = st \<and> saved = []"
  using borrow_cases [OF assms(1)] assms(2) by auto

theorem borrow_failure_atomic_witness:
  "borrow (request_of ''/api/loans/borrow/'' ''ta'' [(''book_id'', JInt 7)]) 2000 library1
     = (Sent 404 (Detail ''Book not found'' ''not_found''), library1, [])
   \<and> (\<forall>p. Sent 404 (Detail ''Book not found'' ''not_found'') \<noteq> Sent 201 p)
   \<and> library1 = library1 \<and> ([] :: collection list) = []"
proof -
  have run: "borrow (request_of ''/api/loans/borrow/'' ''ta'' [(''book_id'', JInt 7)]) 2000
      library1 = (Sent 404 (Detail ''Book not found'' ''not_found''), library1, [])"
    by (simp add: borrow_def Let_def auth_defs body_defs example_defs require_role_def
        anyone_def upper_def upper_char_def lower_letters_def upper_letters_def reply_def)
  have fails: "\<forall>p. Sent 404 (Detail ''Book not found'' ''not_found'') \<noteq> Sent 201 p"
    by simp
  from borrow_failure_atomic [OF run fails] run fails show ?thesis by simp
qed

lemma one_active_loan_iff:
  "one_active_loan ls \<longleftrightarrow> (\<forall>u b. length (active_loans u b ls) \<le> 1)"
proof
  assume inv: "one_active_loan ls"
  show "\<forall>u b. length (active_loans u b ls) \<le> 1"
  proof (intro allI)
    fix u b
    show "length (active_loans u b ls) \<le> 1"
    proof (cases "active_loans u b ls")
      case Nil
      then show ?thesis by simp
    next
      case (Cons l rest)
      then have "l \<in> set (active_loans u b ls)" by simp
      then have "l \<in> set ls" "Loan_user_id l = u" "Loan_book_id l = b"
        by (simp_all add: active_loans_def)
      then show ?thesis using inv by (auto simp: one_active_loan_def)
    qed
  qed
next
  assume "\<forall>u b. length (active_loans u b ls) \<le> 1"
  then show "one_active_loan ls" by (simp add: one_active_loan_def)
qed

lemma active_loans_returned:
  "length (active_loans u b (ls[t := (ls ! t)\<lparr>Loan_returned_at := Some now\<rparr>]))
     \<le> length (active_loans u b ls)"
proof (induction ls arbitrary: t)
  case Nil
  then show ?case by simp
next
  case (Cons l ls)
  show ?case
  proof (cases t)
    case 0
    then show ?thesis by (simp add: active_loans_def)
  next
    case (Suc k)
    then show ?thesis using Cons.IH [of k] by (simp add: active_loans_def)
  qed
qed

lemma return_cases:
  assumes "return_loan req now st = (r, st', saved)"
  shows "loans st' = loans st
    \<or> (\<exists>t. loans st' = (loans st)[t := (loans st ! t)\<lparr>Loan_returned_at := Some now\<rparr>])"
  using assms
  by (auto simp: return_loan_def Let_def reply_def crash_def
      split: option.splits sum.splits exn.splits if_splits)

lemma borrow_keeps_one_active:
  assumes "one_active_loan (loans st)"
  shows "one_active_loan (loans (fst (snd (borrow req now st))))"
proof -
  obtain r st' saved where run: "borrow req now st = (r, st', saved)"
    by (cases "borrow req now st") auto
  from borrow_cases [OF run] show ?thesis
  proof
    assume "st' = st \<and> saved = [] \<and> (\<forall>l. r \<noteq> Sent 201 (LoanData l))"
    then show ?thesis using assms run by simp
  next
    assume "\<exists>u bid l. r = Sent 201 (LoanData l) \<and> saved = [Books, Loans]
          \<and> active_loans u bid (loans st) = []
          \<and> loans st' = loans st @ [l] \<and> Loan_user_id l = u \<and> Loan_book_id l = bid"
    then obtain u bid l where none: "active_loans u bid (loans st) = []"
      and app: "loans st' = loans st @ [l]"
      and l: "Loan_user_id l = u" "Loan_book_id l = bid" by blast
    have "length (active_loans u' b' (loans st')) \<le> 1" for u' b'
    proof (cases "u' = u \<and> b' = bid")
      case True
      then show ?thesis using none app by (simp add: active_loans_def)
    next
      case False
      then have "active_loans u' b' (loans st') = active_loans u' b' (loans st)"
        using app l by (auto simp: active_loans_def)
      then show ?thesis using assms by (simp add: one_active_loan_iff)
    qed
    then show ?thesis using run by (simp add: one_active_loan_iff)
  qed
qed

lemma return_keeps_one_active:
  assumes "one_active_loan (loans st)"
  shows "one_active_loan (loans (fst (snd (return_loan req now st))))"
proof -
  obtain r st' saved where run: "return_loan req now st = (r, st', saved)"
    by (cases "return_loan req now st") auto
  have "length (active_loans u b (loans st')) \<le> 1" for u b
  proof -
    have "length (active_loans u b (loans st')) \<le> length (active_loans u b (loans st))"
      using return_cases [OF run] active_loans_returned by auto
    also have "\<dots> \<le> 1" using assms by (simp add: one_active_loan_iff)
    finally show ?thesis .
  qed
  then show ?thesis using run by (simp add: one_active_loan_iff)
qed



text \<open>
  Claim C3. When the user already holds an open loan on the book, and the book still has
  a copy, a borrow request of that user for that book is answered 409 with the code
  \<^verbatim>\<open>duplicate_loan\<close> and changes nothing. The two handlers that save loans keep the
  invariant: if every user has at most one open loan per book before a borrow or a
  return request, so it is afterwards.
\<close>

theorem duplicate_loan_refused:
  assumes auth: "get_auth_user req st = Some u"
    and role: "User_role u \<in> set anyone"
    and field: "book_field (or_empty (req_body req)) = Inr v"
    and given: "truthy v"
    and bid: "py_int v = Inr bid"
    and book: "find_index (\<lambda>b. Book_id b = bid) (books st) = Some i"
    and copies: "1 \<le> Book_available_copies (books st ! i)"
    and held: "active_loans (User_id u) bid (loans st) \<noteq> []"
  shows "borrow req now st
       = (Sent 409 (Detail ''Book already borrowed by user'' ''duplicate_loan''), st, [])
     \<and> (\<forall>req' now' st0. one_active_loan (loans st0) \<longrightarrow>
           one_active_loan (loans (fst (snd (borrow req' now' st0))))
         \<and> one_active_loan (loans (fst (snd (return_loan req' now' st0)))))"
proof
  obtain a where "find (\<lambda>l. Loan_user_id l = User_id u \<and> Loan_book_id l = bid
                  \<and> Loan_returned_at l = None) (loans st) = Some a"
    using held by (cases "find (\<lambda>l. Loan_user_id l = User_id u \<and> Loan_book_id l = bid
                  \<and> Loan_returned_at l = None) (loans st)")
      (auto simp: find_None_filter active_loans_def)
  then show "borrow req now st
       = (Sent 409 (Detail ''Book already borrowed by user'' ''duplicate_loan''), st, [])"
    using auth require_role_anyone [OF role] field given bid book copies
    by (simp add: borrow_def Let_def reply_def)
next
  show "\<forall>req' now' st0. one_active_loan (loans st0) \<longrightarrow>
           one_active_loan (loans (fst (snd (borrow req' now' st0))))
         \<and> one_active_loan (loans (fst (snd (return_loan req' now' st0))))"
    using borrow_keeps_one_active return_keeps_one_active by blast
qed

theorem duplicate_loan_refused_witness:
  "get_auth_user (request_of ''/api/loans/borrow/'' ''ta'' [(''book_id'', JInt 1)]) library1
     = Some alice
   \<and> User_role alice \<in> set anyone
   \<and> book_field (or_empty (req_body
        (request_of ''/api/loans/borrow/'' ''ta'' [(''book_id'', JInt 1)]))) = Inr (JInt 1)
   \<and> truthy (JInt 1) \<and> py_int (JInt 1) = Inr 1
   \<and> find_index (\<lambda>b. Book_id b = 1) (books library1) = Some 0
   \<and> 1 \<le> Book_available_copies (books library1 ! 0)
   \<and> active_loans (User_id alice) 1 (loans library1) \<noteq> []
   \<and> borrow (request_of ''/api/loans/borrow/'' ''ta'' [(''book_id'', JInt 1)]) 2000 library1
       = (Sent 409 (Detail ''Book already borrowed by user'' ''duplicate_loan''), library1, [])
   \<and> one_active_loan (loans library1)
   \<and> one_active_loan (loans (fst (snd (borrow
        (request_of ''/api/loans/borrow/'' ''tl'' [(''book_id'', JInt 1)]) 2000 library1))))
   \<and> one_active_loan (loans (fst (snd (return_loan
        (request_of ''/api/loans/return/'' ''ta'' [(''loan_id'', JInt 1)]) 2000 library1))))"
proof -
  let ?r = "request_of ''/api/loans/borrow/'' ''ta'' [(''book_id'', JInt 1)]"
  have h1: "get_auth_user ?r library1 = Some alice"
    by (simp add: auth_defs example_defs)
  have h2: "User_role alice \<in> set anyone" by (simp add: alice_def anyone_def)
  have h3: "book_field (or_empty (req_body ?r)) = Inr (JInt 1)"
    by (simp add: body_defs example_defs)
  have h4: "truthy (JInt 1)" by simp
  have h5: "py_int (JInt 1) = Inr 1" by simp
  have h6: "find_index (\<lambda>b. Book_id b = 1) (books library1) = Some 0"
    by (simp add: example_defs)
  have h7: "1 \<le> Book_available_copies (books library1 ! 0)" by (simp add: example_defs)
  have h8: "active_loans (User_id alice) 1 (loans library1) \<noteq> []"
    by (simp add: example_defs active_loans_def)
  have h9: "one_active_loan (loans library1)"
    by (simp add: example_defs active_loans_def one_active_loan_def)
  note c = duplicate_loan_refused [OF h1 h2 h3 h4 h5 h6 h7 h8, of 2000]
  from c h9 have "one_active_loan (loans (fst (snd (borrow
        (request_of ''/api/loans/borrow/'' ''tl'' [(''book_id'', JInt 1)]) 2000 library1))))"
    and "one_active_loan (loans (fst (snd (return_loan
        (request_of ''/api/loans/return/'' ''ta'' [(''loan_id'', JInt 1)]) 2000 library1))))"
    by blast+
  with c h1 h2 h3 h4 h5 h6 h7 h8 h9 show ?thesis by blast
qed

lemma find_target_Some:
  assumes "find_target body u ls = Inr (Some t)"
  shows "t < length ls"
  using assms find_index_Some
  by (auto simp: find_target_def split: sum.splits if_splits exn.splits)

subsection \<open>Returning\<close>

text \<open>
  The return branch on a request that passes the role check and for which
  \<^const>\<open>find_target\<close> gives an open loan that the user may return.
\<close>

lemma return_general:
  assumes auth: "get_auth_user req st = Some u"
    and role: "require_role (Some u) anyone"
    and target: "find_target (or_empty (req_body req)) u (loans st) = Inr (Some t)"
    and unreturned: "Loan_returned_at (loans st ! t) = None"
    and allowed: "Loan_user_id (loans st ! t) = User_id u \<or> require_role (Some u) staff"
  shows "\<exists>st' saved.
       return_loan req now st
         = (Sent 200 (LoanData ((loans st ! t)\<lparr>Loan_returned_at := Some now\<rparr>)), st', saved)
     \<and> loans st' = (loans st)[t := (loans st ! t)\<lparr>Loan_returned_at := Some now\<rparr>]
     \<and> Loan_returned_at (loans st' ! t) = Some now
     \<and> status (loans st' ! t) = ''RETURNED''
     \<and> (case find_index (\<lambda>b. Book_id b = Loan_book_id (loans st ! t)) (books st) of
           Some i \<Rightarrow>
             books st' = (books st)[i := (books st ! i)\<lparr>Book_available_copies :=
                            Book_available_copies (books st ! i) + 1\<rparr>]
             \<and> Book_available_copies (books st' ! i)
                 = Book_available_copies (books st ! i) + 1
             \<and> saved = [Books, Loans]
         | None \<Rightarrow> books st' = books st \<and> saved = [Loans])
     \<and> users st' = users st \<and> authors st' = authors st \<and> tokens st' = tokens st"
proof -
  let ?l = "(loans st ! t)\<lparr>Loan_returned_at := Some now\<rparr>"
  have t: "t < length (loans st)" using find_target_Some [OF target] .
  have ok: "(Loan_user_id (loans st ! t) \<noteq> User_id u \<and> \<not> require_role (Some u) staff) = False"
    using allowed by blast
  show ?thesis
  proof (cases "find_index (\<lambda>b. Book_id b = Loan_book_id (loans st ! t)) (books st)")
    case None
    then have "return_loan req now st
        = (Sent 200 (LoanData ?l), st\<lparr>loans := (loans st)[t := ?l]\<rparr>, [Loans])"
      using auth role target unreturned
      by (simp add: return_loan_def Let_def ok)
    then show ?thesis using None t by (simp add: status_def)
  next
    case (Some i)
    let ?b = "(books st ! i)\<lparr>Book_available_copies :=
                 Book_available_copies (books st ! i) + 1\<rparr>"
    have i: "i < length (books st)" using find_index_Some [OF Some] by simp
    have "return_loan req now st
        = (Sent 200 (LoanData ?l),
           st\<lparr>books := (books st)[i := ?b], loans := (loans st)[t := ?l]\<rparr>, [Books, Loans])"
      using auth role target unreturned Some
      by (simp add: return_loan_def Let_def ok)
    then show ?thesis using Some t i by (simp add: status_def)
  qed
qed

text \<open>
  Which loan a request names: with \<^verbatim>\<open>loan_id\<close> given as an integer, the first loan with
  that id; without \<^verbatim>\<open>loan_id\<close> and with the book given as an integer other than 0 (as
  \<^verbatim>\<open>book_id\<close>, or as \<^verbatim>\<open>book\<close> when there is no \<^verbatim>\<open>book_id\<close>), the first open loan of the
  requesting user on that book.
\<close>

lemma find_target_named:
  assumes "(map_of kvs ''loan_id'' = Some (JInt lid)
        \<and> first_at (\<lambda>l. Loan_id l = lid) ls t)
      \<or> (map_of kvs ''loan_id'' = None \<and> bid \<noteq> 0
        \<and> (map_of kvs ''book_id'' = Some (JInt bid)
            \<or> (map_of kvs ''book_id'' = None \<and> map_of kvs ''book'' = Some (JInt bid)))
        \<and> first_at (\<lambda>l. Loan_book_id l = bid \<and> Loan_user_id l = User_id u
                          \<and> Loan_returned_at l = None) ls t)"
  shows "find_target (JObj kvs) u ls = Inr (Some t)"
  using assms
proof
  assume a: "map_of kvs ''loan_id'' = Some (JInt lid) \<and> first_at (\<lambda>l. Loan_id l = lid) ls t"
  then have "find_index (\<lambda>l. Loan_id l = lid) ls = Some t"
    using first_at_find_index by blast
  moreover obtain v where "book_field (JObj kvs) = Inr v"
    by (cases "book_field (JObj kvs)") (auto simp: book_field_def split: if_splits)
  ultimately show ?thesis using a by (simp add: find_target_def)
next
  assume b: "map_of kvs ''loan_id'' = None \<and> bid \<noteq> 0
        \<and> (map_of kvs ''book_id'' = Some (JInt bid)
            \<or> (map_of kvs ''book_id'' = None \<and> map_of kvs ''book'' = Some (JInt bid)))
        \<and> first_at (\<lambda>l. Loan_book_id l = bid \<and> Loan_user_id l = User_id u
                          \<and> Loan_returned_at l = None) ls t"
  then have "find_index (\<lambda>l. Loan_book_id l = bid \<and> Loan_user_id l = User_id u
                          \<and> Loan_returned_at l = None) ls = Some t"
    using first_at_find_index by blast
  moreover have "book_field (JObj kvs) = Inr (JInt bid)"
    using b book_field_int by blast
  ultimately show ?thesis using b by (simp add: find_target_def)
qed

text \<open>
  Claim C2. A valid return request: the token resolves to a user whose role is, in upper
  case, MEMBER, LIBRARIAN or ADMIN, the body is an object that names a loan, by its id
  or by the book, the loan is not returned yet, and the user owns it or is staff
  (LIBRARIAN or ADMIN). The handler answers 200 with that
  loan, whose \<^verbatim>\<open>returned_at\<close> is now set, so that its status is RETURNED; all other loans
  are unchanged. The first book with the id of the loan, when the library still has it,
  gets one available copy more and books and loans are saved; when there is no such
  book, the books stay and only the loans are saved.
\<close>

theorem return_valid:
  assumes auth: "get_auth_user req st = Some u"
    and role: "upper (User_role u) \<in> set anyone"
    and body: "req_body req = Some (JObj kvs)"
    and named: "(map_of kvs ''loan_id'' = Some (JInt lid)
        \<and> first_at (\<lambda>l. Loan_id l = lid) (loans st) t)
      \<or> (map_of kvs ''loan_id'' = None \<and> bid \<noteq> 0
        \<and> (map_of kvs ''book_id'' = Some (JInt bid)
            \<or> (map_of kvs ''book_id'' = None \<and> map_of kvs ''book'' = Some (JInt bid)))
        \<and> first_at (\<lambda>l. Loan_book_id l = bid \<and> Loan_user_id l = User_id u
                          \<and> Loan_returned_at l = None) (loans st) t)"
    and unreturned: "Loan_returned_at (loans st ! t) = None"
    and allowed: "Loan_user_id (loans st ! t) = User_id u
      \<or> upper (User_role u) \<in> set staff"
  shows "\<exists>st' saved.
       return_loan req now st
         = (Sent 200 (LoanData ((loans st ! t)\<lparr>Loan_returned_at := Some now\<rparr>)), st', saved)
     \<and> loans st' = (loans st)[t := (loans st ! t)\<lparr>Loan_returned_at := Some now\<rparr>]
     \<and> Loan_returned_at (loans st' ! t) = Some now
     \<and> status (loans st' ! t) = ''RETURNED''
     \<and> (if list_ex (\<lambda>b. Book_id b = Loan_book_id (loans st ! t)) (books st)
         then (\<exists>i. first_at (\<lambda>b. Book_id b = Loan_book_id (loans st ! t)) (books st) i
                \<and> books st' = (books st)[i := (books st ! i)\<lparr>Book_available_copies :=
                                   Book_available_copies (books st ! i) + 1\<rparr>]
                \<and> Book_available_copies (books st' ! i)
                    = Book_available_copies (books st ! i) + 1)
              \<and> saved = [Books, Loans]
         else books st' = books st \<and> saved = [Loans])
     \<and> users st' = users st \<and> authors st' = authors st \<and> tokens st' = tokens st"
proof -
  let ?P = "\<lambda>b. Book_id b = Loan_book_id (loans st ! t)"
  have target: "find_target (or_empty (req_body req)) u (loans st) = Inr (Some t)"
    using find_target_named [OF named] by (simp add: body or_empty_obj)
  have allowed': "Loan_user_id (loans st ! t) = User_id u \<or> require_role (Some u) staff"
    using allowed role_passes_staff by blast
  from return_general [OF auth role_passes_anyone [OF role] target unreturned allowed',
      of now]
  obtain st' saved where r:
    "return_loan req now st
       = (Sent 200 (LoanData ((loans st ! t)\<lparr>Loan_returned_at := Some now\<rparr>)), st', saved)"
    "loans st' = (loans st)[t := (loans st ! t)\<lparr>Loan_returned_at := Some now\<rparr>]"
    "Loan_returned_at (loans st' ! t) = Some now"
    "status (loans st' ! t) = ''RETURNED''"
    "(case find_index ?P (books st) of
        Some i \<Rightarrow>
          books st' = (books st)[i := (books st ! i)\<lparr>Book_available_copies :=
                         Book_available_copies (books st ! i) + 1\<rparr>]
          \<and> Book_available_copies (books st' ! i) = Book_available_copies (books st ! i) + 1
          \<and> saved = [Books, Loans]
      | None \<Rightarrow> books st' = books st \<and> saved = [Loans])"
    "users st' = users st" "authors st' = authors st" "tokens st' = tokens st"
    by blast
  have b: "if list_ex ?P (books st)
         then (\<exists>i. first_at ?P (books st) i
                \<and> books st' = (books st)[i := (books st ! i)\<lparr>Book_available_copies :=
                                   Book_available_copies (books st ! i) + 1\<rparr>]
                \<and> Book_available_copies (books st' ! i)
                    = Book_available_copies (books st ! i) + 1)
              \<and> saved = [Books, Loans]
         else books st' = books st \<and> saved = [Loans]"
  proof (cases "find_index ?P (books st)")
    case None
    then have "\<not> list_ex ?P (books st)" by (rule find_index_None)
    then show ?thesis using r(5) None by simp
  next
    case (Some i)
    then have f: "first_at ?P (books st) i" by (rule find_index_first_at)
    then have "list_ex ?P (books st)" by (auto simp: first_at_def list_ex_iff)
    then show ?thesis using r(5) Some f by auto
  qed
  from r(1-4) b r(6-8) show ?thesis by blast
qed

theorem return_valid_witness:
  "get_auth_user (request_of ''/api/loans/return/'' ''tl'' [(''loan_id'', JInt 2)]) library2
     = Some libby
   \<and> upper (User_role libby) \<in> set anyone
   \<and> req_body (request_of ''/api/loans/return/'' ''tl'' [(''loan_id'', JInt 2)])
       = Some (JObj [(''loan_id'', JInt 2)])
   \<and> map_of [(''loan_id'', JInt 2)] ''loan_id'' = Some (JInt 2)
   \<and> first_at (\<lambda>l. Loan_id l = 2) (loans library2) 1
   \<and> Loan_returned_at (loans library2 ! 1) = None
   \<and> Loan_user_id (loans library2 ! 1) = User_id libby
   \<and> list_ex (\<lambda>b. Book_id b = Loan_book_id (loans library2 ! 1)) (books library2)
   \<and> (\<exists>st' saved.
         return_loan (request_of ''/api/loans/return/'' ''tl'' [(''loan_id'', JInt 2)]) 2000
           library2 = (Sent 200 (LoanData (loan2\<lparr>Loan_returned_at := Some 2000\<rparr>)), st', saved)
       \<and> loans st' = [loan1, loan2\<lparr>Loan_returned_at := Some 2000\<rparr>]
       \<and> status (loans st' ! 1) = ''RETURNED''
       \<and> books st' = [book1\<lparr>Book_available_copies := 1\<rparr>]
       \<and> saved = [Books, Loans])"
proof -
  let ?kvs = "[(''loan_id'', JInt 2)]"
  let ?r = "request_of ''/api/loans/return/'' ''tl'' ?kvs"
  have h1: "get_auth_user ?r library2 = Some libby"
    by (simp add: auth_defs example_defs)
  have h2: "upper (User_role libby) \<in> set anyone" by (simp add: libby_def role_defs)
  have h3: "req_body ?r = Some (JObj ?kvs)" by (simp add: request_of_def)
  have h4: "map_of ?kvs ''loan_id'' = Some (JInt 2)" by simp
  have h5: "first_at (\<lambda>l. Loan_id l = 2) (loans library2) 1"
    by (simp add: example_defs first_at_def)
  have h6: "Loan_returned_at (loans library2 ! 1) = None" by (simp add: example_defs)
  have h7: "Loan_user_id (loans library2 ! 1) = User_id libby" by (simp add: example_defs)
  have h8: "list_ex (\<lambda>b. Book_id b = Loan_book_id (loans library2 ! 1)) (books library2)"
    by (simp add: example_defs)
  have named: "(map_of ?kvs ''loan_id'' = Some (JInt 2)
        \<and> first_at (\<lambda>l. Loan_id l = 2) (loans library2) 1)
      \<or> (map_of ?kvs ''loan_id'' = None \<and> (0::int) \<noteq> 0
        \<and> (map_of ?kvs ''book_id'' = Some (JInt 0)
            \<or> (map_of ?kvs ''book_id'' = None \<and> map_of ?kvs ''book'' = Some (JInt 0)))
        \<and> first_at (\<lambda>l. Loan_book_id l = 0 \<and> Loan_user_id l = User_id libby
                          \<and> Loan_returned_at l = None) (loans library2) 1)"
    using h4 h5 by blast
  have allowed: "Loan_user_id (loans library2 ! 1) = User_id libby
      \<or> upper (User_role libby) \<in> set staff"
    using h7 by blast
  from return_valid [OF h1 h2 h3 named h6 allowed, of 2000] h8
  obtain st' saved i where r:
    "return_loan ?r 2000 library2
       = (Sent 200 (LoanData ((loans library2 ! 1)\<lparr>Loan_returned_at := Some 2000\<rparr>)),
          st', saved)"
    "loans st' = (loans library2)[1 := (loans library2 ! 1)\<lparr>Loan_returned_at := Some 2000\<rparr>]"
    "status (loans st' ! 1) = ''RETURNED''"
    "first_at (\<lambda>b. Book_id b = Loan_book_id (loans library2 ! 1)) (books library2) i"
    "books st' = (books library2)[i := (books library2 ! i)\<lparr>Book_available_copies :=
                     Book_available_copies (books library2 ! i) + 1\<rparr>]"
    "saved = [Books, Loans]"
    by auto
  have "i = 0" using r(4) by (simp add: first_at_def example_defs)
  with r have "\<exists>st' saved.
         return_loan ?r 2000 library2
           = (Sent 200 (LoanData (loan2\<lparr>Loan_returned_at := Some 2000\<rparr>)), st', saved)
       \<and> loans st' = [loan1, loan2\<lparr>Loan_returned_at := Some 2000\<rparr>]
       \<and> status (loans st' ! 1) = ''RETURNED''
       \<and> books st' = [book1\<lparr>Book_available_copies := 1\<rparr>]
       \<and> saved = [Books, Loans]"
    by (intro exI [of _ st'] exI [of _ saved])
      (simp add: library0_def library2_def library3_def book1_def)
  with h1 h2 h3 h4 h5 h6 h7 h8 show ?thesis by blast
qed

text \<open>
  The member's request by book, evaluated in the same library: it closes her loan, the
  first in the file, and leaves the librarian's open.
\<close>

lemma return_by_book_example:
  "return_loan (request_of ''/api/loans/return/'' ''ta'' [(''book_id'', JInt 1)]) 2000 library2
     = (Sent 200 (LoanData (loan1\<lparr>Loan_returned_at := Some 2000\<rparr>)),
        library2\<lparr>books := [book1\<lparr>Book_available_copies := 1\<rparr>],
                 loans := [loan1\<lparr>Loan_returned_at := Some 2000\<rparr>, loan2]\<rparr>,
        [Books, Loans])"
  by (simp add: return_loan_def find_target_def Let_def auth_defs body_defs example_defs
      role_defs)

lemma create_author_member:
  assumes "get_auth_user req st = Some u" and "User_role u = ''MEMBER''"
  shows "create_author req st
    = (Sent 401 (Detail ''Authentication required'' ''not_authenticated''), st, [])"
  using assms member_not_staff [OF assms(2)] by (simp add: create_author_def reply_def)

lemma put_author_member:
  assumes "get_auth_user req st = Some u" and "User_role u = ''MEMBER''"
  shows "put_author req res_id st
    = (Sent 403 (Detail ''Forbidden'' ''permission_denied''), st, [])"
  using assms member_not_staff [OF assms(2)] by (simp add: put_author_def reply_def)

subsection \<open>Creating an author\<close>

text \<open>
  Claim C4. A member who posts to \<^verbatim>\<open>/api/authors/\<close> with a valid token is answered 401
  with the code \<^verbatim>\<open>not_authenticated\<close>, the answer a request without a token gets, and
  not the forbidden outcome with \<^verbatim>\<open>permission_denied\<close>. The update of an author, which
  makes the same role check, answers the same member 403 with \<^verbatim>\<open>permission_denied\<close>.
\<close>

theorem create_author_member_unauthorized:
  "get_auth_user (request_of ''/api/authors/'' ''ta'' [(''name'', JStr ''Ann'')]) library0
     = Some alice
   \<and> User_role alice = ''MEMBER''
   \<and> create_author (request_of ''/api/authors/'' ''ta'' [(''name'', JStr ''Ann'')]) library0
     = (Sent 401 (Detail ''Authentication required'' ''not_authenticated''), library0, [])
   \<and> do_PUT str_of (request_of ''/api/authors/1/'' ''ta'' [(''name'', JStr ''Ann'')]) library0
     = (Sent 403 (Detail ''Forbidden'' ''permission_denied''), library0, [])"
proof -
  have a: "get_auth_user (request_of p ''ta'' kvs) library0 = Some alice" for p kvs
    by (simp add: auth_defs example_defs)
  have m: "User_role alice = ''MEMBER''" by (simp add: alice_def)
  have p: "parse_resource_path ''/api/authors/1/'' ''/api/authors/''
      = (''/api/authors/1/'', Some 1)"
    by (simp add: parser_defs Let_def)
  have "do_PUT str_of (request_of ''/api/authors/1/'' ''ta'' [(''name'', JStr ''Ann'')]) library0
     = put_author (request_of ''/api/authors/1/'' ''ta'' [(''name'', JStr ''Ann'')]) 1 library0"
    using p by (simp add: do_PUT_def request_of_def startswith_def)
  then show ?thesis
    using a m create_author_member [OF a m] put_author_member [OF a m] by simp
qed

subsection \<open>Routing of PUT\<close>

lemma startswith_append: "startswith (p @ s) p"
  by (simp add: startswith_def)

lemma startswith_split: "startswith s p \<Longrightarrow> s = p @ drop (length p) s"
  by (metis append_take_drop_id startswith_def)

lemma parse_detail_base:
  assumes "parse_resource_path path p = (base, Some rid)" and "endswith p ''/''"
  shows "startswith base p \<and> startswith path p"
  using assms
  by (auto simp: parse_resource_path_def Let_def startswith_append
      split: if_splits list.splits sum.splits)

lemma parse_no_prefix:
  assumes "\<not> startswith path p" and "endswith p ''/''"
  shows "parse_resource_path path p = (path, None)"
  using assms by (simp add: parse_resource_path_def)

lemma books_not_authors:
  assumes "startswith path ''/api/books/''"
  shows "\<not> startswith path ''/api/authors/''"
proof -
  have "path = ''/api/books/'' @ drop (length ''/api/books/'') path"
    using assms by (rule startswith_split)
  then obtain rest where "path = ''/api/books/'' @ rest" ..
  then show ?thesis by (simp add: startswith_def)
qed

lemma do_PUT_author:
  assumes "parse_resource_path (req_path req) ''/api/authors/'' = (base, Some rid)"
  shows "do_PUT str_of req st = put_author req rid st"
proof -
  have "startswith base ''/api/authors/''"
    using parse_detail_base [OF assms] by (simp add: endswith_def)
  then show ?thesis using assms by (simp add: do_PUT_def)
qed

lemma do_PUT_book:
  assumes "parse_resource_path (req_path req) ''/api/books/'' = (base, Some rid)"
  shows "do_PUT str_of req st = put_book str_of req rid st"
proof -
  have b: "startswith base ''/api/books/''" and p: "startswith (req_path req) ''/api/books/''"
    using parse_detail_base [OF assms] by (simp_all add: endswith_def)
  have "parse_resource_path (req_path req) ''/api/authors/'' = (req_path req, None)"
    using books_not_authors [OF p] by (intro parse_no_prefix) (simp_all add: endswith_def)
  then show ?thesis using assms b by (simp add: do_PUT_def)
qed

subsection \<open>Updating an author\<close>

text \<open>
  Claim C10. An update of an existing author by a librarian or an administrator, with a
  body that has no truthy \<^verbatim>\<open>name\<close> (no body, no such key, or a value such as \<^verbatim>\<open>""\<close>,
  \<^verbatim>\<open>null\<close>, \<^verbatim>\<open>0\<close> or \<^verbatim>\<open>[]\<close>), is answered 200 with the author as stored; the data files
  stay as they are and no collection is saved. The body is an object or counts as
  empty: that is what the hypothesis on \<^const>\<open>dict_get\<close> says.
\<close>

theorem put_author_without_name:
  assumes route: "parse_resource_path (req_path req) ''/api/authors/'' = (base, Some res_id)"
    and auth: "get_auth_user req st = Some u"
    and role: "User_role u \<in> set staff"
    and author: "find_index (\<lambda>a. Author_id a = res_id) (authors st) = Some i"
    and name: "dict_get (or_empty (req_body req)) ''name'' = Inr v"
    and falsy: "\<not> truthy v"
  shows "do_PUT str_of req st = (Sent 200 (AuthorData (authors st ! i)), st, [])"
  using auth require_role_staff [OF role] author name falsy
  by (simp add: do_PUT_author [OF route] put_author_def Let_def)

theorem put_author_without_name_witness:
  "parse_resource_path (req_path (request_of ''/api/authors/1/'' ''tl'' [(''name'', JStr '''')]))
     ''/api/authors/'' = (''/api/authors/1/'', Some 1)
   \<and> get_auth_user (request_of ''/api/authors/1/'' ''tl'' [(''name'', JStr '''')]) library0
       = Some libby
   \<and> User_role libby \<in> set staff
   \<and> find_index (\<lambda>a. Author_id a = 1) (authors library0) = Some 0
   \<and> dict_get (or_empty (req_body
        (request_of ''/api/authors/1/'' ''tl'' [(''name'', JStr '''')]))) ''name''
       = Inr (JStr '''')
   \<and> \<not> truthy (JStr '''')
   \<and> do_PUT (\<lambda>v. []) (request_of ''/api/authors/1/'' ''tl'' [(''name'', JStr '''')]) library0
       = (Sent 200 (AuthorData \<lparr>Author_id = 1, Author_name = JStr ''Jane Austen''\<rparr>),
          library0, [])"
proof -
  let ?r = "request_of ''/api/authors/1/'' ''tl'' [(''name'', JStr '''')]"
  have h1: "parse_resource_path (req_path ?r) ''/api/authors/''
      = (''/api/authors/1/'', Some 1)"
    by (simp add: parser_defs Let_def request_of_def)
  have h2: "get_auth_user ?r library0 = Some libby" by (simp add: auth_defs example_defs)
  have h3: "User_role libby \<in> set staff" by (simp add: libby_def staff_def)
  have h4: "find_index (\<lambda>a. Author_id a = 1) (authors library0) = Some 0"
    by (simp add: example_defs)
  have h5: "dict_get (or_empty (req_body ?r)) ''name'' = Inr (JStr '''')"
    by (simp add: body_defs example_defs)
  have h6: "\<not> truthy (JStr '''')" by simp
  from put_author_without_name [OF h1 h2 h3 h4 h5 h6, of "\<lambda>v. []"]
  have "do_PUT (\<lambda>v. []) ?r library0
       = (Sent 200 (AuthorData \<lparr>Author_id = 1, Author_name = JStr ''Jane Austen''\<rparr>),
          library0, [])"
    by (simp add: library0_def)
  with h1 h2 h3 h4 h5 h6 show ?thesis by blast
qed

subsection \<open>Updating a book\<close>

lemma int_of_str_error: "int_of_str s = Inl e \<Longrightarrow> e = ValueError"
  by (auto simp: int_of_str_def Let_def split: list.splits option.splits if_splits)

lemma py_int_error:
  assumes "py_int v = Inl e"
  shows "e = TypeError \<or> e = ValueError
    \<or> (e = OverflowError \<and> (v = JFloat PosInf \<or> v = JFloat NegInf))"
proof (cases v)
  case (JFloat f)
  then show ?thesis using assms by (cases f) auto
next
  case (JStr s)
  then show ?thesis using assms int_of_str_error by auto
qed (use assms in auto)

lemma put_title_obj:
  "\<exists>t. put_title str_of (JObj kvs) book = Inr (book\<lparr>Book_title := t\<rparr>)"
proof (cases "map_of kvs ''title''")
  case None
  then have "put_title str_of (JObj kvs) book = Inr (book\<lparr>Book_title := Book_title book\<rparr>)"
    by (simp add: put_title_def)
  then show ?thesis ..
next
  case (Some v)
  then have "put_title str_of (JObj kvs) book = Inr (book\<lparr>Book_title := str_of v\<rparr>)"
    by (simp add: put_title_def)
  then show ?thesis ..
qed

lemma put_isbn_obj:
  "\<exists>t. put_isbn str_of (JObj kvs) book = Inr (book\<lparr>Book_isbn := t\<rparr>)"
proof (cases "map_of kvs ''isbn''")
  case None
  then have "put_isbn str_of (JObj kvs) book = Inr (book\<lparr>Book_isbn := Book_isbn book\<rparr>)"
    by (simp add: put_isbn_def)
  then show ?thesis ..
next
  case (Some v)
  then have "put_isbn str_of (JObj kvs) book = Inr (book\<lparr>Book_isbn := str_of v\<rparr>)"
    by (simp add: put_isbn_def)
  then show ?thesis ..
qed

lemma put_publication_year_obj:
  assumes "map_of kvs ''publication_year'' \<notin> {Some (JFloat PosInf), Some (JFloat NegInf)}"
  shows "\<exists>y. put_publication_year (JObj kvs) book = Inr (book\<lparr>Book_publication_year := y\<rparr>)"
proof (cases "map_of kvs ''publication_year''")
  case None
  then have "put_publication_year (JObj kvs) book
      = Inr (book\<lparr>Book_publication_year := Book_publication_year book\<rparr>)"
    by (simp add: put_publication_year_def)
  then show ?thesis ..
next
  case (Some v)
  show ?thesis
  proof (cases "py_int v")
    case (Inl e)
    then have "e = TypeError \<or> e = ValueError"
      using py_int_error [OF Inl] assms Some by auto
    then have "put_publication_year (JObj kvs) book
        = Inr (book\<lparr>Book_publication_year := Book_publication_year book\<rparr>)"
      using Some Inl by (auto simp: put_publication_year_def int_item_def catching_def)
    then show ?thesis ..
  next
    case (Inr n)
    then have "put_publication_year (JObj kvs) book = Inr (book\<lparr>Book_publication_year := n\<rparr>)"
      using Some by (simp add: put_publication_year_def int_item_def catching_def)
    then show ?thesis ..
  qed
qed

lemma put_book_author_obj:
  assumes "map_of kvs ''author'' \<notin> {Some (JFloat PosInf), Some (JFloat NegInf)}"
  shows "\<exists>a. put_book_author (JObj kvs) st book = Inr (book\<lparr>Book_author_id := a\<rparr>)"
proof (cases "map_of kvs ''author''")
  case None
  then have "put_book_author (JObj kvs) st book
      = Inr (book\<lparr>Book_author_id := Book_author_id book\<rparr>)"
    by (simp add: put_book_author_def)
  then show ?thesis ..
next
  case (Some v)
  show ?thesis
  proof (cases "py_int v")
    case (Inl e)
    then have "e = TypeError \<or> e = ValueError"
      using py_int_error [OF Inl] assms Some by auto
    then have "put_book_author (JObj kvs) st book
        = Inr (book\<lparr>Book_author_id := Book_author_id book\<rparr>)"
      using Some Inl by (auto simp: put_book_author_def int_item_def catching_def)
    then show ?thesis ..
  next
    case (Inr n)
    then have "put_book_author (JObj kvs) st book
        = Inr (book\<lparr>Book_author_id :=
            (if list_ex (\<lambda>a. Author_id a = n) (authors st) then n else Book_author_id book)\<rparr>)"
      using Some by (simp add: put_book_author_def int_item_def catching_def)
    then show ?thesis ..
  qed
qed

lemma put_total_copies_int:
  assumes "map_of kvs ''total_copies'' = Some (JInt n)"
  shows "put_total_copies (JObj kvs) book
    = Inr (book\<lparr>Book_total_copies := n,
                Book_available_copies :=
                  max (Book_available_copies book + (n - Book_total_copies book)) 0\<rparr>)"
  using assms by (simp add: put_total_copies_def int_item_def catching_def Let_def)

lemma put_available_copies_absent:
  assumes "map_of kvs ''available_copies'' = None"
  shows "put_available_copies (JObj kvs) book = Inr book"
  using assms by (simp add: put_available_copies_def)

lemma put_fields_total_copies:
  assumes total: "map_of kvs ''total_copies'' = Some (JInt n)"
    and absent: "map_of kvs ''available_copies'' = None"
    and year: "map_of kvs ''publication_year'' \<notin> {Some (JFloat PosInf), Some (JFloat NegInf)}"
    and author: "map_of kvs ''author'' \<notin> {Some (JFloat PosInf), Some (JFloat NegInf)}"
  shows "\<exists>book'. put_fields str_of (JObj kvs) st book = Inr book'
    \<and> Book_id book' = Book_id book
    \<and> Book_total_copies book' = n
    \<and> Book_available_copies book'
        = max (Book_available_copies book + (n - Book_total_copies book)) 0"
proof -
  obtain t where 1: "put_title str_of (JObj kvs) book = Inr (book\<lparr>Book_title := t\<rparr>)"
    using put_title_obj by blast
  let ?b1 = "book\<lparr>Book_title := t\<rparr>"
  obtain y where 2: "put_publication_year (JObj kvs) ?b1
      = Inr (?b1\<lparr>Book_publication_year := y\<rparr>)"
    using put_publication_year_obj [OF year] by blast
  let ?b2 = "?b1\<lparr>Book_publication_year := y\<rparr>"
  obtain s where 3: "put_isbn str_of (JObj kvs) ?b2 = Inr (?b2\<lparr>Book_isbn := s\<rparr>)"
    using put_isbn_obj by blast
  let ?b3 = "?b2\<lparr>Book_isbn := s\<rparr>"
  obtain a where 4: "put_book_author (JObj kvs) st ?b3 = Inr (?b3\<lparr>Book_author_id := a\<rparr>)"
    using put_book_author_obj [OF author] by blast
  let ?b4 = "?b3\<lparr>Book_author_id := a\<rparr>"
  have "put_fields str_of (JObj kvs) st book
      = Inr (?b4\<lparr>Book_total_copies := n,
                Book_available_copies :=
                  max (Book_available_copies ?b4 + (n - Book_total_copies ?b4)) 0\<rparr>)"
    by (simp add: put_fields_def and_then_def 1 2 3 4 put_total_copies_int [OF total]
        put_available_copies_absent [OF absent])
  then show ?thesis by simp
qed

text \<open>
  The update of the total where no field of the body ends the request: the body is an
  object giving an integer \<^verbatim>\<open>total_copies\<close> and no \<^verbatim>\<open>available_copies\<close>, and neither
  \<^verbatim>\<open>publication_year\<close> nor \<^verbatim>\<open>author\<close> is an infinite float. The answer is 200 with the
  updated book, which replaces the old one in the saved books: its \<^verbatim>\<open>total_copies\<close> is
  the value given, and its \<^verbatim>\<open>available_copies\<close> is the old number plus the change of
  the total, or 0 if that is negative.
\<close>

lemma put_book_total_copies:
  assumes route: "parse_resource_path (req_path req) ''/api/books/'' = (base, Some res_id)"
    and auth: "get_auth_user req st = Some u"
    and role: "User_role u \<in> set staff"
    and book: "find_index (\<lambda>b. Book_id b = res_id) (books st) = Some i"
    and body: "or_empty (req_body req) = JObj kvs"
    and total: "map_of kvs ''total_copies'' = Some (JInt n)"
    and absent: "map_of kvs ''available_copies'' = None"
    and year: "map_of kvs ''publication_year'' \<notin> {Some (JFloat PosInf), Some (JFloat NegInf)}"
    and author: "map_of kvs ''author'' \<notin> {Some (JFloat PosInf), Some (JFloat NegInf)}"
  shows "\<exists>book'. do_PUT str_of req st
       = (Sent 200 (BookData book'), st\<lparr>books := (books st)[i := book']\<rparr>, [Books])
     \<and> Book_id book' = res_id
     \<and> Book_total_copies book' = n
     \<and> Book_available_copies book'
         = max (Book_available_copies (books st ! i)
                + (n - Book_total_copies (books st ! i))) 0"
proof -
  obtain book' where f: "put_fields str_of (JObj kvs) st (books st ! i) = Inr book'"
    and p: "Book_id book' = Book_id (books st ! i)" "Book_total_copies book' = n"
      "Book_available_copies book'
         = max (Book_available_copies (books st ! i)
                + (n - Book_total_copies (books st ! i))) 0"
    using put_fields_total_copies [OF total absent year author] by blast
  have "do_PUT str_of req st
       = (Sent 200 (BookData book'), st\<lparr>books := (books st)[i := book']\<rparr>, [Books])"
    using auth require_role_staff [OF role] book body f
    by (simp add: do_PUT_book [OF route] put_book_def Let_def)
  then show ?thesis using p find_index_Some [OF book] by auto
qed

lemma put_book_total_copies_example:
  "parse_resource_path (req_path (request_of ''/api/books/1/'' ''tl''
      [(''total_copies'', JInt 5)])) ''/api/books/'' = (''/api/books/1/'', Some 1)
   \<and> get_auth_user (request_of ''/api/books/1/'' ''tl'' [(''total_copies'', JInt 5)]) library1
       = Some libby
   \<and> User_role libby \<in> set staff
   \<and> find_index (\<lambda>b. Book_id b = 1) (books library1) = Some 0
   \<and> or_empty (req_body (request_of ''/api/books/1/'' ''tl'' [(''total_copies'', JInt 5)]))
       = JObj [(''total_copies'', JInt 5)]
   \<and> map_of [(''total_copies'', JInt 5)] ''total_copies'' = Some (JInt 5)
   \<and> map_of [(''total_copies'', JInt 5)] ''available_copies'' = None
   \<and> map_of [(''total_copies'', JInt 5)] ''publication_year''
       \<notin> {Some (JFloat PosInf), Some (JFloat NegInf)}
   \<and> map_of [(''total_copies'', JInt 5)] ''author''
       \<notin> {Some (JFloat PosInf), Some (JFloat NegInf)}
   \<and> (\<exists>book'. do_PUT (\<lambda>v. []) (request_of ''/api/books/1/'' ''tl'' [(''total_copies'', JInt 5)])
          library1
         = (Sent 200 (BookData book'), library1\<lparr>books := [book']\<rparr>, [Books])
       \<and> Book_total_copies book' = 5 \<and> Book_available_copies book' = 4)"
proof -
  let ?kvs = "[(''total_copies'', JInt 5)]"
  let ?r = "request_of ''/api/books/1/'' ''tl'' ?kvs"
  have h1: "parse_resource_path (req_path ?r) ''/api/books/'' = (''/api/books/1/'', Some 1)"
    by (simp add: parser_defs Let_def request_of_def)
  have h2: "get_auth_user ?r library1 = Some libby" by (simp add: auth_defs example_defs)
  have h3: "User_role libby \<in> set staff" by (simp add: libby_def staff_def)
  have h4: "find_index (\<lambda>b. Book_id b = 1) (books library1) = Some 0"
    by (simp add: example_defs)
  have h5: "or_empty (req_body ?r) = JObj ?kvs" by (simp add: body_defs example_defs)
  have h6: "map_of ?kvs ''total_copies'' = Some (JInt 5)" by simp
  have h7: "map_of ?kvs ''available_copies'' = None" by simp
  have h8: "map_of ?kvs ''publication_year'' \<notin> {Some (JFloat PosInf), Some (JFloat NegInf)}"
    by simp
  have h9: "map_of ?kvs ''author'' \<notin> {Some (JFloat PosInf), Some (JFloat NegInf)}" by simp
  from put_book_total_copies [OF h1 h2 h3 h4 h5 h6 h7 h8 h9, of "\<lambda>v. []"]
  obtain book' where
    "do_PUT (\<lambda>v. []) ?r library1
       = (Sent 200 (BookData book'), library1\<lparr>books := (books library1)[0 := book']\<rparr>, [Books])"
    "Book_total_copies book' = 5"
    "Book_available_copies book'
       = max (Book_available_copies (books library1 ! 0)
              + (5 - Book_total_copies (books library1 ! 0))) 0"
    by blast
  then have "\<exists>book'. do_PUT (\<lambda>v. []) ?r library1
         = (Sent 200 (BookData book'), library1\<lparr>books := [book']\<rparr>, [Books])
       \<and> Book_total_copies book' = 5 \<and> Book_available_copies book' = 4"
    by (intro exI [of _ book']) (simp add: example_defs)
  with h1 h2 h3 h4 h5 h6 h7 h8 h9 show ?thesis by blast
qed

text \<open>
  Claim C7. A body with an integer \<^verbatim>\<open>total_copies\<close> and no \<^verbatim>\<open>available_copies\<close> may carry
  \<^verbatim>\<open>publication_year\<close> or \<^verbatim>\<open>author\<close> as \<^verbatim>\<open>Infinity\<close>, which \<^verbatim>\<open>json.loads\<close> reads as a
  float. \<^verbatim>\<open>int\<close> of it raises an OverflowError, and the handler, which skips a field on
  a TypeError or a ValueError, does not catch it: the request ends without an answer,
  the total is not updated and no collection is saved.
\<close>

theorem put_book_infinity_crash:
  "do_PUT (\<lambda>v. []) (request_of ''/api/books/1/'' ''tl''
       [(''total_copies'', JInt 5), (''publication_year'', JFloat PosInf)]) library1
     = (Crashed OverflowError, library1, [])
   \<and> do_PUT (\<lambda>v. []) (request_of ''/api/books/1/'' ''tl''
       [(''total_copies'', JInt 5), (''author'', JFloat PosInf)]) library1
     = (Crashed OverflowError, library1, [])
   \<and> Book_total_copies (books library1 ! 0) = 2"
proof -
  have route: "parse_resource_path (req_path (request_of ''/api/books/1/'' ''tl'' kvs))
      ''/api/books/'' = (''/api/books/1/'', Some 1)" for kvs
    by (simp add: parser_defs Let_def request_of_def)
  have auth: "get_auth_user (request_of ''/api/books/1/'' ''tl'' kvs) library1 = Some libby"
    for kvs
    by (simp add: auth_defs example_defs)
  have staff: "require_role (Some libby) staff" by (simp add: libby_def role_defs)
  have year: "put_fields (\<lambda>v. [])
      (JObj [(''total_copies'', JInt 5), (''publication_year'', JFloat PosInf)]) library1
      (books library1 ! 0) = Inl OverflowError"
    by (simp add: put_fields_def and_then_def put_title_def put_publication_year_def
        int_item_def catching_def)
  have author: "put_fields (\<lambda>v. [])
      (JObj [(''total_copies'', JInt 5), (''author'', JFloat PosInf)]) library1
      (books library1 ! 0) = Inl OverflowError"
    by (simp add: put_fields_def and_then_def put_title_def put_publication_year_def
        put_isbn_def put_book_author_def int_item_def catching_def)
  have idx: "find_index (\<lambda>b. Book_id b = 1) (books library1) = Some 0"
    by (simp add: example_defs)
  have "do_PUT (\<lambda>v. []) (request_of ''/api/books/1/'' ''tl''
       [(''total_copies'', JInt 5), (''publication_year'', JFloat PosInf)]) library1
     = (Crashed OverflowError, library1, [])"
    unfolding do_PUT_book [OF route] using auth staff idx year
    by (simp add: put_book_def Let_def crash_def or_empty_obj request_of_def)
  moreover have "do_PUT (\<lambda>v. []) (request_of ''/api/books/1/'' ''tl''
       [(''total_copies'', JInt 5), (''author'', JFloat PosInf)]) library1
     = (Crashed OverflowError, library1, [])"
    unfolding do_PUT_book [OF route] using auth staff idx author
    by (simp add: put_book_def Let_def crash_def or_empty_obj request_of_def)
  moreover have "Book_total_copies (books library1 ! 0) = 2" by (simp add: example_defs)
  ultimately show ?thesis by blast
qed

subsection \<open>The path parser\<close>

lemma split_slash_first: "\<exists>rest. split_slash r = first_segment r # rest"
proof (induction r)
  case Nil
  then show ?case by (simp add: first_segment_def)
next
  case (Cons c cs)
  then obtain rest where "split_slash cs = first_segment cs # rest" by blast
  then show ?case by (simp add: first_segment_def)
qed

lemma parse_resource_path_eq:
  "parse_resource_path path prefix =
     (if \<not> startswith path (with_slash prefix) then (path, None)
      else if drop (length (with_slash prefix)) path \<in> {[], ''/''} then (with_slash prefix, None)
      else (case int_of_str (first_segment (drop (length (with_slash prefix)) path)) of
              Inr res_id \<Rightarrow> (with_slash prefix @ str_int res_id @ ''/'', Some res_id)
            | Inl e \<Rightarrow> (path, None)))"
proof -
  obtain rest where "split_slash (drop (length (with_slash prefix)) path)
      = first_segment (drop (length (with_slash prefix)) path) # rest"
    using split_slash_first by blast
  then show ?thesis
    unfolding parse_resource_path_def with_slash_def [symmetric] Let_def by simp
qed

lemma int_of_str_empty: "int_of_str [] = Inl ValueError"
  by (simp add: int_of_str_def strip_chars_def)

lemma first_segment_whole: "CHR ''/'' \<notin> set seg \<Longrightarrow> first_segment seg = seg"
  by (auto simp: first_segment_def takeWhile_eq_all_conv)

lemma first_segment_slash: "CHR ''/'' \<notin> set seg \<Longrightarrow> first_segment (seg @ ''/'' ) = seg"
  by (induction seg) (auto simp: first_segment_def)

lemma parse_literal:
  assumes "int_of_str seg = Inr i" and "CHR ''/'' \<notin> set seg"
  shows "parse_resource_path (with_slash prefix @ seg) prefix
      = (with_slash prefix @ str_int i @ ''/'', Some i)"
    and "parse_resource_path (with_slash prefix @ seg @ ''/'') prefix
      = (with_slash prefix @ str_int i @ ''/'', Some i)"
proof -
  have ne: "seg \<noteq> []" using assms(1) int_of_str_empty by auto
  have ns: "seg \<noteq> ''/''" using assms(2) by auto
  show "parse_resource_path (with_slash prefix @ seg) prefix
      = (with_slash prefix @ str_int i @ ''/'', Some i)"
    using assms ne ns
    by (simp add: parse_resource_path_eq startswith_append first_segment_whole)
  have ns': "seg @ ''/'' \<noteq> ''/''" using ne by simp
  show "parse_resource_path (with_slash prefix @ seg @ ''/'') prefix
      = (with_slash prefix @ str_int i @ ''/'', Some i)"
    using assms ns'
    by (simp add: parse_resource_path_eq startswith_append first_segment_slash)
qed

lemma authors_not_books:
  assumes "startswith path ''/api/authors/''"
  shows "\<not> startswith path ''/api/books/''"
  using assms books_not_authors by blast

lemma do_PUT_no_match:
  assumes "prefix = ''/api/authors/'' \<or> prefix = ''/api/books/''"
    and "startswith path prefix"
    and "parse_resource_path path prefix = (path, None)"
    and "req_path req = path"
  shows "do_PUT str_of req st = (Sent 404 (Detail ''Not found'' ''not_found''), st, [])"
proof -
  have sl: "endswith ''/api/authors/'' ''/''" "endswith ''/api/books/'' ''/''"
    by (simp_all add: endswith_def)
  from assms(1) show ?thesis
  proof
    assume p: "prefix = ''/api/authors/''"
    then have "parse_resource_path path ''/api/books/'' = (path, None)"
      using authors_not_books assms(2) sl by (intro parse_no_prefix) auto
    then show ?thesis using assms p by (simp add: do_PUT_def reply_def)
  next
    assume p: "prefix = ''/api/books/''"
    then have "parse_resource_path path ''/api/authors/'' = (path, None)"
      using books_not_authors assms(2) sl by (intro parse_no_prefix) auto
    then show ?thesis using assms p by (simp add: do_PUT_def reply_def)
  qed
qed

text \<open>
  Claim C5 says that only a positive integer followed by nothing else is a detail match.
  The parser converts the first segment with \<^verbatim>\<open>int\<close> and asks nothing of the sign: zero
  and a negative integer are detail matches too.
\<close>

theorem parse_resource_path_zero:
  "parse_resource_path ''/api/authors/0/'' ''/api/authors/'' = (''/api/authors/0/'', Some 0)
   \<and> parse_resource_path ''/api/authors/-3'' ''/api/authors/'' = (''/api/authors/-3/'', Some (- 3))"
  by (simp add: parser_defs Let_def)

text \<open>
  Claim C5, amended. A detail match has an integer literal, as \<^verbatim>\<open>int\<close> accepts it, as
  the first segment of the remainder after the prefix, and the id is its value. A
  remainder that is such a literal, alone or followed by one slash, is a detail match on
  its value, whatever the sign. A remainder other than the empty one and \<^verbatim>\<open>/\<close> whose
  first segment is no such literal is a non-match: the parser returns the path as it is
  and no id, and under \<^verbatim>\<open>/api/authors/\<close> or \<^verbatim>\<open>/api/books/\<close> the PUT and PATCH handlers
  answer it with 404.
\<close>

theorem parse_resource_path_detail:
  "(parse_resource_path path prefix = (base, Some i) \<longrightarrow>
      startswith path (with_slash prefix)
      \<and> int_of_str (first_segment (drop (length (with_slash prefix)) path)) = Inr i
      \<and> base = with_slash prefix @ str_int i @ ''/'')
   \<and> (int_of_str seg = Inr j \<and> CHR ''/'' \<notin> set seg \<longrightarrow>
      parse_resource_path (with_slash prefix @ seg) prefix
        = (with_slash prefix @ str_int j @ ''/'', Some j)
      \<and> parse_resource_path (with_slash prefix @ seg @ ''/'') prefix
        = (with_slash prefix @ str_int j @ ''/'', Some j))
   \<and> (startswith other (with_slash prefix)
      \<and> drop (length (with_slash prefix)) other \<notin> {[], ''/''}
      \<and> int_of_str (first_segment (drop (length (with_slash prefix)) other)) = Inl e \<longrightarrow>
      parse_resource_path other prefix = (other, None)
      \<and> ((prefix = ''/api/authors/'' \<or> prefix = ''/api/books/'') \<and> req_path req = other \<longrightarrow>
           do_PUT str_of req st = (Sent 404 (Detail ''Not found'' ''not_found''), st, [])))"
proof (intro conjI impI)
  assume a: "parse_resource_path path prefix = (base, Some i)"
  then show "startswith path (with_slash prefix)"
    by (auto simp: parse_resource_path_eq split: if_splits sum.splits)
  from a show "int_of_str (first_segment (drop (length (with_slash prefix)) path)) = Inr i"
    by (auto simp: parse_resource_path_eq split: if_splits sum.splits)
  from a show "base = with_slash prefix @ str_int i @ ''/''"
    by (auto simp: parse_resource_path_eq split: if_splits sum.splits)
next
  assume "int_of_str seg = Inr j \<and> CHR ''/'' \<notin> set seg"
  then show "parse_resource_path (with_slash prefix @ seg) prefix
        = (with_slash prefix @ str_int j @ ''/'', Some j)"
    and "parse_resource_path (with_slash prefix @ seg @ ''/'') prefix
        = (with_slash prefix @ str_int j @ ''/'', Some j)"
    using parse_literal by blast+
next
  assume b: "startswith other (with_slash prefix)
      \<and> drop (length (with_slash prefix)) other \<notin> {[], ''/''}
      \<and> int_of_str (first_segment (drop (length (with_slash prefix)) other)) = Inl e"
  then show n: "parse_resource_path other prefix = (other, None)"
    by (simp add: parse_resource_path_eq)
  assume c: "(prefix = ''/api/authors/'' \<or> prefix = ''/api/books/'') \<and> req_path req = other"
  then have "with_slash prefix = prefix" by (auto simp: with_slash_def endswith_def)
  then have "startswith other prefix" using b by simp
  then show "do_PUT str_of req st = (Sent 404 (Detail ''Not found'' ''not_found''), st, [])"
    using c n do_PUT_no_match by blast
qed


theorem parse_resource_path_detail_witness:
  "parse_resource_path ''/api/authors/0/'' ''/api/authors/'' = (''/api/authors/0/'', Some 0)
   \<and> startswith ''/api/authors/0/'' (with_slash ''/api/authors/'')
   \<and> int_of_str (first_segment (drop (length (with_slash ''/api/authors/''))
         ''/api/authors/0/'')) = Inr 0
   \<and> int_of_str ''-3'' = Inr (- 3) \<and> CHR ''/'' \<notin> set ''-3''
   \<and> parse_resource_path (with_slash ''/api/authors/'' @ ''-3'') ''/api/authors/''
       = (with_slash ''/api/authors/'' @ str_int (- 3) @ ''/'', Some (- 3))
   \<and> parse_resource_path (with_slash ''/api/authors/'' @ ''-3'' @ ''/'') ''/api/authors/''
       = (with_slash ''/api/authors/'' @ str_int (- 3) @ ''/'', Some (- 3))
   \<and> startswith ''/api/authors/abc'' (with_slash ''/api/authors/'')
   \<and> drop (length (with_slash ''/api/authors/'')) ''/api/authors/abc'' \<notin> {[], ''/''}
   \<and> int_of_str (first_segment (drop (length (with_slash ''/api/authors/''))
         ''/api/authors/abc'')) = Inl ValueError
   \<and> parse_resource_path ''/api/authors/abc'' ''/api/authors/'' = (''/api/authors/abc'', None)
   \<and> req_path (request_of ''/api/authors/abc'' ''tl'' []) = ''/api/authors/abc''
   \<and> do_PUT (\<lambda>v. []) (request_of ''/api/authors/abc'' ''tl'' []) library0
       = (Sent 404 (Detail ''Not found'' ''not_found''), library0, [])"
proof -
  have w: "with_slash ''/api/authors/'' = ''/api/authors/''"
    by (simp add: with_slash_def endswith_def)
  have h1: "parse_resource_path ''/api/authors/0/'' ''/api/authors/''
      = (''/api/authors/0/'', Some 0)"
    by (simp add: parser_defs Let_def)
  have h2: "int_of_str ''-3'' = Inr (- 3) \<and> CHR ''/'' \<notin> set ''-3''"
    by (simp add: parser_defs Let_def)
  have h3: "startswith ''/api/authors/abc'' (with_slash ''/api/authors/'')
      \<and> drop (length (with_slash ''/api/authors/'')) ''/api/authors/abc'' \<notin> {[], ''/''}
      \<and> int_of_str (first_segment (drop (length (with_slash ''/api/authors/''))
            ''/api/authors/abc'')) = Inl ValueError"
    by (simp add: w first_segment_def parser_defs Let_def)
  have h4: "(''/api/authors/'' = ''/api/authors/'' \<or> ''/api/authors/'' = ''/api/books/'')
      \<and> req_path (request_of ''/api/authors/abc'' ''tl'' []) = ''/api/authors/abc''"
    by (simp add: request_of_def)
  note t = parse_resource_path_detail [of "''/api/authors/0/''" "''/api/authors/''"
      "''/api/authors/0/''" 0 "''-3''" "- 3" "''/api/authors/abc''" ValueError
      "request_of ''/api/authors/abc'' ''tl'' []" "\<lambda>v. []" library0]
  from t h1 have c1: "startswith ''/api/authors/0/'' (with_slash ''/api/authors/'')
      \<and> int_of_str (first_segment (drop (length (with_slash ''/api/authors/''))
            ''/api/authors/0/'')) = Inr 0"
    by blast
  from t h2 have c2: "parse_resource_path (with_slash ''/api/authors/'' @ ''-3'') ''/api/authors/''
       = (with_slash ''/api/authors/'' @ str_int (- 3) @ ''/'', Some (- 3))
     \<and> parse_resource_path (with_slash ''/api/authors/'' @ ''-3'' @ ''/'') ''/api/authors/''
       = (with_slash ''/api/authors/'' @ str_int (- 3) @ ''/'', Some (- 3))"
    by blast
  from t h3 h4 have c3: "parse_resource_path ''/api/authors/abc'' ''/api/authors/''
       = (''/api/authors/abc'', None)
     \<and> do_PUT (\<lambda>v. []) (request_of ''/api/authors/abc'' ''tl'' []) library0
       = (Sent 404 (Detail ''Not found'' ''not_found''), library0, [])"
    by blast
  from h1 h2 h3 h4 c1 c2 c3 show ?thesis by blast
qed

text \<open>
  Claim C8. The PATCH handler calls the PUT handler and does nothing else: on every
  request and every state of the data files both give the same response, leave the same
  files and save the same collections.
\<close>

theorem patch_is_put: "do_PATCH str_of req st = do_PUT str_of req st"
  by (simp add: do_PATCH_def)

end
